theory Spec2Isabelle
  imports Main "HOL-Library.Word"
begin

unbundle bit_operations_syntax

section \<open>Go values used by the table writer\<close>

text \<open>
  A Go \<open>string\<close> and a \<open>[]byte\<close> are byte sequences and \<open>len\<close> counts bytes, so both
  are modelled as \<open>string\<close> (a list of 8-bit characters). Go's \<open>int\<close> is modelled as
  \<open>int\<close> (lengths and widths here stay far from the 64-bit limits), the \<open>uint\<close> flag
  mask as a 64-bit word. A run-time panic of the Go code is a value of type \<open>panic\<close>,
  and a function that can panic returns \<open>panic + 'a\<close>.
\<close>

datatype panic = SliceOutOfRange | IndexOutOfRange | NegativeRepeat | DivideByZero

type_synonym uint = "64 word"

definition ESC :: char where "ESC = CHR 0x1B"
definition TAB :: char where "TAB = CHR 0x09"
definition NL :: char where "NL = CHR 0x0A"

text \<open>Go's integer division truncates towards zero; the divisor is checked by the caller.\<close>

definition quot :: "int \<Rightarrow> int \<Rightarrow> int" where
  "quot a b = sgn a * sgn b * (\<bar>a\<bar> div \<bar>b\<bar>)"

text \<open>\<open>strings.Repeat\<close> and \<open>bytes.Repeat\<close>: both panic on a negative count.\<close>

definition Repeat :: "string \<Rightarrow> int \<Rightarrow> panic + string" where
  "Repeat s count =
     (if count < 0 then Inl NegativeRepeat else Inr (concat (replicate (nat count) s)))"

text \<open>The slice expression \<open>s[:n]\<close>: it panics unless \<open>0 \<le> n \<le> len(s)\<close>.\<close>

definition sliceTo :: "string \<Rightarrow> int \<Rightarrow> panic + string" where
  "sliceTo s n =
     (if n < 0 \<or> int (length s) < n then Inl SliceOutOfRange else Inr (take (nat n) s))"

text \<open>An index expression \<open>xs[i]\<close> with a non-negative index: it panics out of range.\<close>

definition index :: "'a list \<Rightarrow> nat \<Rightarrow> panic + 'a" where
  "index xs i = (if i < length xs then Inr (xs ! i) else Inl IndexOutOfRange)"

section \<open>Library functions of Go that the writer calls\<close>

text \<open>
  \<open>strings.Split(s, sep)\<close> for a separator of one byte (the writer splits on the
  newline and on the tab only): the pieces between the separators, never an empty list.
\<close>

fun Split :: "string \<Rightarrow> char \<Rightarrow> string list" where
  "Split [] sep = [[]]"
| "Split (x # xs) sep =
     (if x = sep then [] # Split xs sep
      else (case Split xs sep of [] \<Rightarrow> [[x]] | f # fs \<Rightarrow> (x # f) # fs))"

text \<open>
  \<open>utf8.DecodeRuneInString\<close>: the code point at the start of a byte string and the
  number of bytes it takes. A byte that starts no well-formed sequence is read as
  \<open>RuneError\<close> of width 1.
\<close>

definition byte :: "char \<Rightarrow> nat" where
  "byte c = of_char c"

definition RuneError :: nat where
  "RuneError = 0xFFFD"

definition decodeRune :: "string \<Rightarrow> nat \<times> nat" where
  "decodeRune p =
     (case p of
        [] \<Rightarrow> (RuneError, 0)
      | c0 # rest \<Rightarrow>
          let p0 = byte c0 in
          if p0 < 0x80 then (p0, 1)
          else if p0 < 0xC2 \<or> 0xF4 < p0 then (RuneError, 1)
          else
            let sz = (if p0 < 0xE0 then 2 else if p0 < 0xF0 then 3 else (4::nat));
                lo = (if p0 = 0xE0 then 0xA0 else if p0 = 0xF0 then 0x90 else (0x80::nat));
                hi = (if p0 = 0xED then 0x9F else if p0 = 0xF4 then 0x8F else (0xBF::nat))
            in if length p < sz then (RuneError, 1)
               else
                 let b1 = byte (rest ! 0) in
                 if b1 < lo \<or> hi < b1 then (RuneError, 1)
                 else if sz = 2 then ((p0 mod 32) * 64 + b1 mod 64, 2)
                 else
                   let b2 = byte (rest ! 1) in
                   if b2 < 0x80 \<or> 0xBF < b2 then (RuneError, 1)
                   else if sz = 3 then
                     ((p0 mod 16) * 4096 + (b1 mod 64) * 64 + b2 mod 64, 3)
                   else
                     let b3 = byte (rest ! 2) in
                     if b3 < 0x80 \<or> 0xBF < b3 then (RuneError, 1)
                     else ((p0 mod 8) * 262144 + (b1 mod 64) * 4096 + (b2 mod 64) * 64
                             + b3 mod 64, 4))"

text \<open>
  \<open>for _, c := range s\<close> over a string: the code points in order, each with the bytes
  it was decoded from (\<open>drop (width - 1) cs\<close> is the string after the sequence that
  starts at \<open>c\<close>).
\<close>

fun runes :: "string \<Rightarrow> (nat \<times> string) list" where
  "runes [] = []"
| "runes (c # cs) =
     (let (r, width) = decodeRune (c # cs)
      in (r, take width (c # cs)) # runes (drop (width - 1) cs))"

text \<open>
  \<open>strings.Replace(s, old, new, -1)\<close>: every occurrence of \<open>old\<close>, found from the left
  and without overlap, becomes \<open>new\<close>. An empty \<open>old\<close> matches before every UTF-8
  sequence and at the end of the string.
\<close>

fun replaceFrom :: "string \<Rightarrow> string \<Rightarrow> string \<Rightarrow> string" where
  "replaceFrom [] old new = []"
| "replaceFrom (c # cs) old new =
     (if take (length old) (c # cs) = old
      then new @ replaceFrom (drop (length old - 1) cs) old new
      else c # replaceFrom cs old new)"

definition Replace :: "string \<Rightarrow> string \<Rightarrow> string \<Rightarrow> string" where
  "Replace s old new =
     (if old = new then s
      else if old = [] then new @ concat (map (\<lambda>(r, bs). bs @ new) (runes s))
      else replaceFrom s old new)"

text \<open>
  The regular expression \<open>\033\[[0-9;]+m\<close> of \<open>escapeColorCodesRegex\<close>. No byte of
  the class \<open>[0-9;]\<close> is an \<open>m\<close>, so a match at a position is the escape byte, the
  bracket, the longest run of class bytes, which is not empty, and an \<open>m\<close> right after
  it. \<open>matchCode s\<close> is the length of the match that starts \<open>s\<close>, if there is one.
\<close>

definition isCodeByte :: "char \<Rightarrow> bool" where
  "isCodeByte c = (c \<in> set ''0123456789;'')"

definition matchCode :: "string \<Rightarrow> nat option" where
  "matchCode s =
     (case s of
        e # b # rest \<Rightarrow>
          if e = ESC \<and> b = CHR ''[''
          then (let run = takeWhile isCodeByte rest
                in if run \<noteq> [] \<and> take 1 (drop (length run) rest) = ''m''
                   then Some (length run + 3) else None)
          else None
      | _ \<Rightarrow> None)"

text \<open>
  \<open>FindAllString(s, -1)\<close> for that expression: the matches from the left, each search
  starting where the match before it ended.
\<close>

fun FindAllString :: "string \<Rightarrow> string list" where
  "FindAllString [] = []"
| "FindAllString (c # cs) =
     (case matchCode (c # cs) of
        Some n \<Rightarrow> take n (c # cs) # FindAllString (drop (n - 1) cs)
      | None \<Rightarrow> FindAllString cs)"

text \<open>
  A colour code is a string that the expression matches as a whole. A string holds
  colour codes only when every escape byte in it starts a colour code: read from the
  left, each escape byte met starts a match, and the reading goes on after the match.
\<close>

definition isColourCode :: "string \<Rightarrow> bool" where
  "isColourCode cc = (matchCode cc = Some (length cc))"

fun colourCodesOnly :: "string \<Rightarrow> bool" where
  "colourCodesOnly [] = True"
| "colourCodesOnly (c # cs) =
     (if c = ESC
      then (case matchCode (c # cs) of
              Some n \<Rightarrow> colourCodesOnly (drop (n - 1) cs)
            | None \<Rightarrow> False)
      else colourCodesOnly cs)"

text \<open>
  The tables of Go's \<open>unicode\<close> package are not part of the repository: the writer is
  verified for any tables, given as predicates on code points.
\<close>

record unicode =
  Cf :: "nat \<Rightarrow> bool"
  Cc :: "nat \<Rightarrow> bool"
  Mn :: "nat \<Rightarrow> bool"
  Zs :: "nat \<Rightarrow> bool"
  IsSpace :: "nat \<Rightarrow> bool"

text \<open>
  The colour constants \<open>utils.ColorOrange\<close> and \<open>utils.ColorReset\<close> are not in the
  repository's files either: they are parameters too.
\<close>

record palette =
  ColorOrange :: string
  ColorReset :: string

section \<open>Configuration flags and the writer\<close>

text \<open>The flag constants are \<open>1 << iota\<close>, in the order of the source.\<close>

definition StripColours :: uint where "StripColours = 1"
definition AlignMiddle :: uint where "AlignMiddle = 2"
definition AlignRight :: uint where "AlignRight = 4"
definition RemoveLeastPad :: uint where "RemoveLeastPad = 8"
definition PreserveLongFields :: uint where "PreserveLongFields = 16"
definition AsciiTable :: uint where "AsciiTable = 32"

record Dividers =
  HLine :: string
  VLine :: string
  TL :: string
  TR :: string
  BL :: string
  BR :: string
  Cross :: string
  TUp :: string
  TDown :: string
  TRight :: string
  TLeft :: string
  VLeft :: string
  VRight :: string

record column =
  textWidth :: int

text \<open>
  The output sink is an \<open>io.Writer\<close> outside the repository: it is modelled by the
  answer of its \<open>Write\<close> method, the number of bytes it reports and whether it
  reports an error. The field \<open>output\<close> of the source is \<open>output_sink\<close> here, and the
  local variable \<open>fields\<close> is \<open>flds\<close> below: both names are taken in Isabelle.
\<close>

record Writer =
  output_sink :: "string \<Rightarrow> int \<times> bool"
  dividers :: Dividers
  flags :: uint
  termCols :: int
  buffer :: string
  columns :: "column list"
  lines :: "string list"

section \<open>Padding\<close>

text \<open>\<open>getPadding\<close>, lines 259 to 285 of the source.\<close>

definition getPadding :: "Writer \<Rightarrow> nat \<Rightarrow> string \<Rightarrow> panic + (int \<times> string \<times> string)" where
  "getPadding w c colorlessField =
     (case index (columns w) c of
        Inl e \<Rightarrow> Inl e
      | Inr col \<Rightarrow>
          let totalPadding0 = textWidth col - int (length colorlessField);
              totalPadding1 =
                (if flags w AND RemoveLeastPad = 0 then totalPadding0 + 1 else totalPadding0)
          in if flags w AND PreserveLongFields = 0 then
               if flags w AND AlignMiddle \<noteq> 0 then
                 let totalPadding =
                       (if flags w AND RemoveLeastPad = 0 then totalPadding1 + 1
                        else totalPadding1);
                     halfPadding = quot totalPadding 2
                 in case Repeat '' '' halfPadding of
                      Inl e \<Rightarrow> Inl e
                    | Inr leftPaddingStr \<Rightarrow>
                        (case Repeat '' '' (totalPadding - halfPadding) of
                           Inl e \<Rightarrow> Inl e
                         | Inr rightPaddingStr \<Rightarrow>
                             Inr (totalPadding, leftPaddingStr, rightPaddingStr))
               else if flags w AND AlignRight \<noteq> 0 then
                 case Repeat '' '' totalPadding1 of
                   Inl e \<Rightarrow> Inl e
                 | Inr leftPaddingStr \<Rightarrow> Inr (totalPadding1, leftPaddingStr, [])
               else
                 case Repeat '' '' totalPadding1 of
                   Inl e \<Rightarrow> Inl e
                 | Inr rightPaddingStr \<Rightarrow> Inr (totalPadding1, [], rightPaddingStr)
             else Inr (0, [], []))"

section \<open>Construction, writing and clearing\<close>

text \<open>
  \<open>GetTerminalSize\<close>: the \<open>ioctl\<close> system call either fails or fills a \<open>Winsize\<close> of
  16-bit fields. Its answer is a parameter of the model.
\<close>

record Winsize =
  Row :: "16 word"
  Col :: "16 word"
  Xpixel :: "16 word"
  Ypixel :: "16 word"

definition GetTerminalSize :: "Winsize option \<Rightarrow> int \<times> int \<times> bool" where
  "GetTerminalSize ioctl =
     (case ioctl of
        None \<Rightarrow> (0, 0, True)
      | Some ws \<Rightarrow> (uint (Col ws), uint (Row ws), False))"

definition Clear :: "Writer \<Rightarrow> Writer" where
  "Clear w = w\<lparr>columns := [], buffer := [], lines := []\<rparr>"

definition asciiDividers :: Dividers where
  "asciiDividers =
     \<lparr>HLine = ''-'', VLine = ''|'', TL = ''+'', TR = ''+'', BL = ''+'', BR = ''+'',
      Cross = ''+'', TUp = ''+'', TDown = ''+'', TRight = [], TLeft = [],
      VLeft = ''+'', VRight = ''+''\<rparr>"

text \<open>The box-drawing glyphs, each the three bytes of its UTF-8 encoding.\<close>

definition box :: "char \<Rightarrow> string" where
  "box b = [CHR 0xE2, CHR 0x94, b]"

definition boxDividers :: Dividers where
  "boxDividers =
     \<lparr>HLine = box (CHR 0x80), VLine = box (CHR 0x82),
      TL = box (CHR 0x8C), TR = box (CHR 0x90), BL = box (CHR 0x94), BR = box (CHR 0x98),
      Cross = box (CHR 0xBC), TUp = box (CHR 0xAC), TDown = box (CHR 0xB4),
      TRight = [], TLeft = [], VLeft = box (CHR 0x9C), VRight = box (CHR 0xA4)\<rparr>"

definition init :: "Winsize option \<Rightarrow> (string \<Rightarrow> int \<times> bool) \<Rightarrow> uint \<Rightarrow> Writer" where
  "init ioctl out fl =
     Clear \<lparr>output_sink = out,
            dividers = (if fl AND AsciiTable \<noteq> 0 then asciiDividers else boxDividers),
            flags = fl,
            termCols = fst (GetTerminalSize ioctl),
            buffer = [], columns = [], lines = []\<rparr>"

definition NewWriter :: "Winsize option \<Rightarrow> (string \<Rightarrow> int \<times> bool) \<Rightarrow> uint \<Rightarrow> Writer" where
  "NewWriter ioctl out fl = init ioctl out fl"

definition Write :: "Writer \<Rightarrow> string \<Rightarrow> Writer \<times> int" where
  "Write w buf = (w\<lparr>buffer := buffer w @ buf\<rparr>, int (length buf))"

section \<open>Sanitizing the buffer\<close>

text \<open>
  The function given to \<open>strings.Map\<close> in \<open>cleanInvisibleChars\<close>: whether it returns
  the code point itself (kept) or \<open>-1\<close> (removed).
\<close>

definition keepRune :: "unicode \<Rightarrow> nat \<Rightarrow> bool" where
  "keepRune U r =
     (if r = 0x20 \<or> r = 0x1B \<or> r = 0x09 \<or> r = 0x0A then True
      else if Cf U r \<or> Cc U r \<or> Mn U r \<or> Zs U r then False
      else if IsSpace U r then False
      else True)"

text \<open>
  \<open>strings.Map\<close> writes the code points the function keeps; a byte that was read as
  \<open>RuneError\<close> of width 1 is written as the three bytes of U+FFFD.
\<close>

definition cleanInvisibleChars :: "unicode \<Rightarrow> string \<Rightarrow> string" where
  "cleanInvisibleChars U s =
     concat (map (\<lambda>(r, bs).
                if keepRune U r
                then (if r = RuneError \<and> length bs = 1
                      then [CHR 0xEF, CHR 0xBF, CHR 0xBD] else bs)
                else [])
             (runes s))"

section \<open>Column widths and truncation\<close>

text \<open>Lines 242 to 246: the colour codes found in a field are removed one after another.\<close>

fun stripCodes :: "string list \<Rightarrow> string \<Rightarrow> string" where
  "stripCodes [] s = s"
| "stripCodes (cc # ccs) s = stripCodes ccs (Replace s cc [])"

definition colorless :: "string \<Rightarrow> string" where
  "colorless field = stripCodes (FindAllString field) field"

text \<open>An assignment \<open>xs[i] = v\<close>: it panics out of range.\<close>

definition store :: "'a list \<Rightarrow> nat \<Rightarrow> 'a \<Rightarrow> panic + 'a list" where
  "store xs i v = (if i < length xs then Inr (xs[i := v]) else Inl IndexOutOfRange)"

text \<open>
  \<open>truncateLongField\<close>, lines 215 to 222. It writes \<open>w.lines[l]\<close> and
  \<open>colorlessFields[l][c]\<close>; the model returns both. The condition is evaluated from
  the left, so the slices are indexed only once the flag, the terminal width and the
  position have passed.
\<close>

definition truncateLongField ::
  "palette \<Rightarrow> Writer \<Rightarrow> nat \<Rightarrow> nat \<Rightarrow> int \<Rightarrow> string list \<Rightarrow> string list list
     \<Rightarrow> panic + (Writer \<times> string list list)" where
  "truncateLongField P w l c maxFieldLen flds colorlessFields =
     (if flags w AND PreserveLongFields = 0 \<and> 0 < termCols w
         \<and> int c = int (length flds) - 1
      then
        case index colorlessFields l of
          Inl e \<Rightarrow> Inl e
        | Inr row \<Rightarrow>
        case index row c of
          Inl e \<Rightarrow> Inl e
        | Inr cl \<Rightarrow>
          if maxFieldLen < int (length cl) then
            case sliceTo cl (maxFieldLen - 5) of
              Inl e \<Rightarrow> Inl e
            | Inr kept \<Rightarrow>
            case index flds c of
              Inl e \<Rightarrow> Inl e
            | Inr field \<Rightarrow>
            case index (lines w) l of
              Inl e \<Rightarrow> Inl e
            | Inr line \<Rightarrow>
                let newColorLessStr = kept @ ''[...]'';
                    newFieldStr =
                      Replace field cl (kept @ ColorOrange P @ ''[...]'' @ ColorReset P)
                in Inr (w\<lparr>lines := (lines w)[l := Replace line field newFieldStr]\<rparr>,
                        colorlessFields[l := row[c := newColorLessStr]])
          else Inr (w, colorlessFields)
      else Inr (w, colorlessFields))"

text \<open>The loop over the fields of one line (\<open>flds\<close> is the source's \<open>fields\<close>), lines 241 to 253.\<close>

fun createColumnsFields ::
  "palette \<Rightarrow> nat \<Rightarrow> int \<Rightarrow> string list \<Rightarrow> (nat \<times> string) list
     \<Rightarrow> Writer \<times> string list list \<Rightarrow> panic + (Writer \<times> string list list)" where
  "createColumnsFields P l maxFieldLen flds [] st = Inr st"
| "createColumnsFields P l maxFieldLen flds ((c, field) # rest) (w, colorlessFields) =
     (case index colorlessFields l of
        Inl e \<Rightarrow> Inl e
      | Inr row \<Rightarrow>
      case store row c (colorless field) of
        Inl e \<Rightarrow> Inl e
      | Inr row1 \<Rightarrow>
      case truncateLongField P w l c maxFieldLen flds (colorlessFields[l := row1]) of
        Inl e \<Rightarrow> Inl e
      | Inr (w1, colorlessFields1) \<Rightarrow>
      case index colorlessFields1 l of
        Inl e \<Rightarrow> Inl e
      | Inr row2 \<Rightarrow>
      case index row2 c of
        Inl e \<Rightarrow> Inl e
      | Inr cl \<Rightarrow>
      case index (columns w1) c of
        Inl e \<Rightarrow> Inl e
      | Inr col \<Rightarrow>
          let columnWidth = int (length cl);
              w2 = (if textWidth col < columnWidth
                    then w1\<lparr>columns := (columns w1)[c := col\<lparr>textWidth := columnWidth\<rparr>]\<rparr>
                    else w1)
          in createColumnsFields P l maxFieldLen flds rest (w2, colorlessFields1))"

text \<open>
  One turn of the loop over the lines, lines 229 to 253: an empty line is skipped, any
  other line is split into its fields, the columns are extended and the fields are
  measured.
\<close>

definition createColumnsLine ::
  "palette \<Rightarrow> nat \<Rightarrow> string \<Rightarrow> Writer \<times> string list list
     \<Rightarrow> panic + (Writer \<times> string list list)" where
  "createColumnsLine P l line st =
     (case st of (w, colorlessFields) \<Rightarrow>
      if length line = 0 then Inr (w, colorlessFields)
      else
        let flds = Split line TAB in
        if length flds = 0 then Inl DivideByZero
        else
          let maxFieldLen = quot (termCols w) (int (length flds)) - 3;
              w1 = (if length (columns w) < length flds
                    then w\<lparr>columns := columns w
                             @ replicate (length flds - length (columns w)) \<lparr>textWidth = 0\<rparr>\<rparr>
                    else w)
          in case store colorlessFields l (replicate (length flds) []) of
               Inl e \<Rightarrow> Inl e
             | Inr colorlessFields1 \<Rightarrow>
                 createColumnsFields P l maxFieldLen flds (enumerate 0 flds)
                   (w1, colorlessFields1))"

text \<open>
  The loop over the lines, lines 228 to 254. \<open>range w.lines\<close> reads line \<open>l\<close> when its
  turn comes, and only the turn of line \<open>l\<close> writes \<open>w.lines[l]\<close>, so the loop runs
  over the lines as they were at its start.
\<close>

fun createColumnsLines ::
  "palette \<Rightarrow> (nat \<times> string) list \<Rightarrow> Writer \<times> string list list
     \<Rightarrow> panic + (Writer \<times> string list list)" where
  "createColumnsLines P [] st = Inr st"
| "createColumnsLines P ((l, line) # rest) st =
     (case createColumnsLine P l line st of
        Inl e \<Rightarrow> Inl e
      | Inr st1 \<Rightarrow> createColumnsLines P rest st1)"

definition createColumns :: "palette \<Rightarrow> Writer \<Rightarrow> panic + (Writer \<times> string list list)" where
  "createColumns P w =
     createColumnsLines P (enumerate 0 (lines w)) (w, replicate (length (lines w)) [])"

section \<open>Borders and the table\<close>

text \<open>
  \<open>updateHLine\<close>, lines 289 to 327. The line under construction is passed by
  pointer; the model returns it. The division by the length of the horizontal glyph
  panics when that glyph is empty.
\<close>

definition updateHLine ::
  "Writer \<Rightarrow> string \<Rightarrow> int \<Rightarrow> int \<Rightarrow> bool \<Rightarrow> bool \<Rightarrow> panic + string" where
  "updateHLine w hLine hLineLength l isLastRow isLastField =
     (if length (HLine (dividers w)) = 0 then Inl DivideByZero
      else
        let availableTermSpace =
              termCols w - quot (int (length hLine)) (int (length (HLine (dividers w))));
            xDivider =
              (if l = 0 \<and> \<not> isLastField then TUp (dividers w)
               else if l = 0 then TR (dividers w)
               else if isLastRow \<and> \<not> isLastField then TDown (dividers w)
               else if isLastRow then BR (dividers w)
               else if isLastField then VRight (dividers w)
               else Cross (dividers w));
            hLine1 =
              (if isLastField
               then (if l = 0 then TL (dividers w) @ hLine
                     else if isLastRow then BL (dividers w) @ hLine
                     else VLeft (dividers w) @ hLine)
               else hLine)
        in if 0 < availableTermSpace then
             if hLineLength \<le> availableTermSpace then
               case Repeat (HLine (dividers w)) (hLineLength - 1) of
                 Inl e \<Rightarrow> Inl e
               | Inr run \<Rightarrow> Inr (hLine1 @ run @ xDivider)
             else
               case Repeat (HLine (dividers w)) (availableTermSpace - 1) of
                 Inl e \<Rightarrow> Inl e
               | Inr run \<Rightarrow> Inr (hLine1 @ run @ xDivider)
           else Inr hLine1)"

text \<open>
  The left-edge glyph of a divider line, by the three-way test of lines 312 to 318: the
  top-left corner for the boundary of index 0, the bottom-left corner under the last of
  the stored lines, the left T-junction otherwise.
\<close>

definition leftEdge :: "Dividers \<Rightarrow> int \<Rightarrow> bool \<Rightarrow> string" where
  "leftEdge d l isLastRow = (if l = 0 then TL d else if isLastRow then BL d else VLeft d)"

text \<open>
  The loop over the fields of one row, lines 341 to 360. Its state is the buffer, the
  divider line under the row and the border above the first row.
\<close>

fun createTableFields ::
  "Writer \<Rightarrow> string list list \<Rightarrow> nat \<Rightarrow> nat \<Rightarrow> (nat \<times> string) list
     \<Rightarrow> string \<times> string \<times> string \<Rightarrow> panic + (string \<times> string \<times> string)" where
  "createTableFields w colorlessFields l n [] st = Inr st"
| "createTableFields w colorlessFields l n ((c, field0) # rest)
       (formattedBuffer, hLine, prefixHLine) =
     (case index colorlessFields l of
        Inl e \<Rightarrow> Inl e
      | Inr row \<Rightarrow>
      case index row c of
        Inl e \<Rightarrow> Inl e
      | Inr cl \<Rightarrow>
      let field = (if flags w AND StripColours \<noteq> 0 then cl else field0) in
      case getPadding w c cl of
        Inl e \<Rightarrow> Inl e
      | Inr (totalPadding, leftPaddingStr, rightPaddingStr) \<Rightarrow>
      let formattedBuffer1 =
            (if c = 0
             then formattedBuffer @ VLine (dividers w) @ leftPaddingStr @ field
                    @ rightPaddingStr @ VLine (dividers w)
             else formattedBuffer @ leftPaddingStr @ field @ rightPaddingStr
                    @ VLine (dividers w));
          hLineLength = int (length cl) + totalPadding + 1;
          isLastRow = (int l = int (length (lines w)) - 1);
          isLastField = (int c = int n - 1)
      in
      case (if l = 0
            then updateHLine w prefixHLine hLineLength (int l) isLastRow isLastField
            else Inr prefixHLine) of
        Inl e \<Rightarrow> Inl e
      | Inr prefixHLine1 \<Rightarrow>
      case updateHLine w hLine hLineLength (int l + 1) isLastRow isLastField of
        Inl e \<Rightarrow> Inl e
      | Inr hLine1 \<Rightarrow>
          createTableFields w colorlessFields l n rest
            (formattedBuffer1, hLine1, prefixHLine1))"

text \<open>
  One turn of the loop over the lines, lines 333 to 368; \<open>n\<close> above is \<open>len(fields)\<close>
  of the row.
\<close>

definition createTableLine ::
  "Writer \<Rightarrow> string list list \<Rightarrow> nat \<Rightarrow> string \<Rightarrow> string \<Rightarrow> panic + string" where
  "createTableLine w colorlessFields l line formattedBuffer =
     (if length line = 0 then Inr formattedBuffer
      else
        let flds = Split line TAB in
        case createTableFields w colorlessFields l (length flds) (enumerate 0 flds)
               (formattedBuffer, [], []) of
          Inl e \<Rightarrow> Inl e
        | Inr (formattedBuffer1, hLine, prefixHLine) \<Rightarrow>
            let formattedBuffer2 =
                  (if l = 0 then prefixHLine @ [NL] @ formattedBuffer1 else formattedBuffer1)
            in Inr (formattedBuffer2 @ [NL] @ hLine @ [NL]))"

text \<open>The loop over the lines, lines 332 to 369.\<close>

fun createTableLines ::
  "Writer \<Rightarrow> string list list \<Rightarrow> (nat \<times> string) list \<Rightarrow> string \<Rightarrow> panic + string" where
  "createTableLines w colorlessFields [] formattedBuffer = Inr formattedBuffer"
| "createTableLines w colorlessFields ((l, line) # rest) formattedBuffer =
     (case createTableLine w colorlessFields l line formattedBuffer of
        Inl e \<Rightarrow> Inl e
      | Inr formattedBuffer1 \<Rightarrow> createTableLines w colorlessFields rest formattedBuffer1)"

definition createTable :: "Writer \<Rightarrow> string list list \<Rightarrow> panic + string" where
  "createTable w colorlessFields =
     createTableLines w colorlessFields (enumerate 0 (lines w)) []"

text \<open>\<open>formatBuffer\<close>: the rendered bytes and the writer as the two passes leave it.\<close>

definition formatBuffer :: "palette \<Rightarrow> Writer \<Rightarrow> panic + (string \<times> Writer)" where
  "formatBuffer P w =
     (case createColumns P w of
        Inl e \<Rightarrow> Inl e
      | Inr (w1, colorlessFields) \<Rightarrow>
          (case createTable w1 colorlessFields of
             Inl e \<Rightarrow> Inl e
           | Inr formattedBuffer \<Rightarrow> Inr (formattedBuffer, w1)))"

section \<open>Flush\<close>

datatype error = ErrShortWrite

datatype flush_result = Returned "error option" | Panicked panic

text \<open>
  The part of \<open>Flush\<close> before the call of the sink, lines 153 to 158: the bytes that
  will be handed to \<open>output.Write\<close>, and the writer at that point.
\<close>

definition render :: "unicode \<Rightarrow> palette \<Rightarrow> Writer \<Rightarrow> panic + (string \<times> Writer)" where
  "render U P w =
     (let cleanedBuffer = cleanInvisibleChars U (buffer w);
          lines0 = Split cleanedBuffer NL
      in if lines0 = [] then Inl IndexOutOfRange
         else formatBuffer P
                (w\<lparr>lines := (if length (last lines0) = 0 then butlast lines0 else lines0)\<rparr>))"

text \<open>
  \<open>Flush\<close>, lines 151 to 165. The result is what \<open>Flush\<close> returns or the panic that
  leaves it, the bytes handed to the sink (if the call was reached) and the writer
  afterwards. \<open>Clear\<close> is deferred: it runs on every way out, a panic included, and
  it is the last to write the three state fields, which are all that \<open>Flush\<close> writes.
\<close>

definition Flush ::
  "unicode \<Rightarrow> palette \<Rightarrow> Writer \<Rightarrow> flush_result \<times> string option \<times> Writer" where
  "Flush U P w =
     (case render U P w of
        Inl e \<Rightarrow> (Panicked e, None, Clear w)
      | Inr (formattedBuffer, w1) \<Rightarrow>
          let (n, err) = output_sink w1 formattedBuffer
          in if err \<or> n \<noteq> int (length formattedBuffer)
             then (Returned (Some ErrShortWrite), Some formattedBuffer, Clear w1)
             else (Returned None, Some formattedBuffer, Clear w1))"

section \<open>Parameters of the examples\<close>

text \<open>
  The examples below run the writer on concrete inputs, so they fix the parameters.
  The sink \<open>acceptAll\<close> takes every byte. \<open>asciiTables\<close> are the tables of Go's
  \<open>unicode\<close> package on the code points below U+0080 (control characters are
  U+0000 to U+001F and U+007F, the only space separator is U+0020, the white space is
  U+0009 to U+000D and U+0020, and there is no format character or non-spacing mark);
  the examples hold ASCII bytes only.
\<close>

definition acceptAll :: "string \<Rightarrow> int \<times> bool" where
  "acceptAll s = (int (length s), False)"

definition asciiTables :: unicode where
  "asciiTables =
     \<lparr>Cf = (\<lambda>r. False), Cc = (\<lambda>r. r < 0x20 \<or> r = 0x7F), Mn = (\<lambda>r. False),
      Zs = (\<lambda>r. r = 0x20), IsSpace = (\<lambda>r. (9 \<le> r \<and> r \<le> 13) \<or> r = 0x20)\<rparr>"

text \<open>
  Modelled from the spec: \<open>utils.ColorOrange\<close> and \<open>utils.ColorReset\<close> are not in the
  repository's files; the spec calls them the escape sequence that marks truncated
  output and the sequence that resets the colour. The examples take the 256-colour
  orange and the SGR reset.
\<close>

definition ansiPalette :: palette where
  "ansiPalette = \<lparr>ColorOrange = ESC # ''[38;5;208m'', ColorReset = ESC # ''[0m''\<rparr>"

text \<open>A terminal of the given width, and a writer made by \<open>NewWriter\<close> on it.\<close>

definition terminal :: "nat \<Rightarrow> Winsize option" where
  "terminal cols = Some \<lparr>Row = 24, Col = of_nat cols, Xpixel = 0, Ypixel = 0\<rparr>"

definition writerOn :: "nat \<Rightarrow> uint \<Rightarrow> Writer" where
  "writerOn cols fl = NewWriter (terminal cols) acceptAll fl"

section \<open>Basic facts\<close>

lemma replicate_num: "replicate (numeral k) x = x # replicate (pred_numeral k) x"
  by (simp add: numeral_eq_Suc)

text \<open>The equations that run the writer on a concrete input.\<close>

lemmas run_defs =
  Flush_def render_def formatBuffer_def createTable_def createTableLine_def
  createColumns_def createColumnsLine_def truncateLongField_def updateHLine_def
  getPadding_def colorless_def cleanInvisibleChars_def keepRune_def decodeRune_def
  byte_def RuneError_def Replace_def matchCode_def isCodeByte_def
  Write_def writerOn_def NewWriter_def init_def Clear_def GetTerminalSize_def
  terminal_def asciiDividers_def boxDividers_def box_def acceptAll_def asciiTables_def
  ansiPalette_def index_def store_def sliceTo_def Repeat_def quot_def
  StripColours_def AlignMiddle_def AlignRight_def RemoveLeastPad_def
  PreserveLongFields_def AsciiTable_def ESC_def TAB_def NL_def
  Let_def enumerate_eq_zip replicate_num

lemma quot_nonneg: "0 \<le> a \<Longrightarrow> 0 < b \<Longrightarrow> quot a b = a div b"
  by (cases "a = 0") (simp_all add: quot_def sgn_if)

lemma Repeat_space: "0 \<le> n \<Longrightarrow> Repeat '' '' n = Inr (replicate (nat n) (CHR '' ''))"
  by (induction "nat n" arbitrary: n)
     (simp_all add: Repeat_def replicate_append_same flip: replicate_Suc)

section \<open>Padding and alignment\<close>

text \<open>
  C1. The claim: with both the align-middle and the align-right flag set, right alignment
  wins and all the padding goes to the left of the content. The code tests
  \<open>AlignMiddle\<close> first: for a column of width 5 and the field \<open>ab\<close> the two flags
  together give a total padding of 5, split into 2 spaces on the left and 3 on the
  right, while the align-right flag alone gives 4 spaces, all on the left.
\<close>

theorem getPadding_middle_before_right:
  "getPadding ((writerOn 80 (AlignMiddle OR AlignRight))\<lparr>columns := [\<lparr>textWidth = 5\<rparr>]\<rparr>)
     0 ''ab'' = Inr (5, ''  '', ''   '')
   \<and> getPadding ((writerOn 80 AlignRight)\<lparr>columns := [\<lparr>textWidth = 5\<rparr>]\<rparr>)
     0 ''ab'' = Inr (4, ''    '', [])"
  by (simp add: run_defs)

text \<open>
  C9, as stated: with the align-middle and the remove-minimal-padding flag both set,
  the second separation space is still added to the total padding. It is not: for a
  column of width 5 and the field \<open>ab\<close> the total is \<open>5 - 2 = 3\<close>, one space on the
  left and two on the right, and not the 4 that one added space would give.
\<close>

theorem getPadding_middle_removeLeastPad_counterexample:
  "getPadding ((writerOn 80 (AlignMiddle OR RemoveLeastPad))\<lparr>columns := [\<lparr>textWidth = 5\<rparr>]\<rparr>)
     0 ''ab'' = Inr (3, '' '', ''  '')
   \<and> getPadding ((writerOn 80 (AlignMiddle OR RemoveLeastPad))\<lparr>columns := [\<lparr>textWidth = 5\<rparr>]\<rparr>)
     0 ''ab'' \<noteq> Inr (4, ''  '', ''  '')"
  by (simp add: run_defs)

text \<open>
  C9, amended: with the align-middle flag set (and preserve-long-fields not set), for a
  field that fits its column, the total padding is the column width minus the field
  length, plus both separation spaces when remove-minimal-padding is not set and plus
  nothing when it is set; the left side gets half of the total, rounded down, and the
  right side the rest.
\<close>

theorem getPadding_middle_total:
  assumes "flags w AND AlignMiddle \<noteq> 0" and "flags w AND PreserveLongFields = 0"
    and "c < length (columns w)" and "int (length f) \<le> textWidth (columns w ! c)"
  shows "getPadding w c f =
     (let t = textWidth (columns w ! c) - int (length f)
                + (if flags w AND RemoveLeastPad = 0 then 2 else 0)
      in Inr (t, replicate (nat (t div 2)) (CHR '' ''),
              replicate (nat (t - t div 2)) (CHR '' '')))"
proof -
  define d where "d = textWidth (columns w ! c) - int (length f)"
  have d: "0 \<le> d" using assms(4) by (simp add: d_def)
  show ?thesis
  proof (cases "flags w AND RemoveLeastPad = 0")
    case True
    have "0 \<le> (d + 1 + 1) div 2" "0 \<le> d + 1 + 1 - (d + 1 + 1) div 2"
      using d by linarith+
    then show ?thesis using assms True d
      by (simp add: getPadding_def index_def Let_def quot_nonneg Repeat_space add.commute
            flip: d_def)
  next
    case False
    have "0 \<le> d div 2" "0 \<le> d - d div 2" using d by linarith+
    then show ?thesis using assms False d
      by (simp add: getPadding_def index_def Let_def quot_nonneg Repeat_space add.commute
            flip: d_def)
  qed
qed

theorem getPadding_middle_total_witness:
  "getPadding ((writerOn 80 (AlignMiddle OR RemoveLeastPad))\<lparr>columns := [\<lparr>textWidth = 6\<rparr>]\<rparr>)
     0 ''abcd'' = Inr (2, '' '', '' '')
   \<and> getPadding ((writerOn 80 AlignMiddle)\<lparr>columns := [\<lparr>textWidth = 7\<rparr>]\<rparr>)
     0 ''abc'' = Inr (6, ''   '', ''   '')"
proof -
  have a: "getPadding
             ((writerOn 80 (AlignMiddle OR RemoveLeastPad))\<lparr>columns := [\<lparr>textWidth = 6\<rparr>]\<rparr>)
             0 ''abcd'' = Inr (2, '' '', '' '')"
    by (subst getPadding_middle_total; simp add: run_defs)
  have b: "getPadding ((writerOn 80 AlignMiddle)\<lparr>columns := [\<lparr>textWidth = 7\<rparr>]\<rparr>)
             0 ''abc'' = Inr (6, ''   '', ''   '')"
    by (subst getPadding_middle_total; simp add: run_defs)
  show ?thesis using a b by simp
qed

section \<open>Flush leaves no residue\<close>

text \<open>
  C6. After every \<open>Flush\<close>, whether it reported success or a short write (or was left
  by a panic), the buffer, the lines and the columns of the writer are empty.
\<close>

theorem Flush_clears_state:
  "buffer (snd (snd (Flush U P w))) = []
   \<and> lines (snd (snd (Flush U P w))) = []
   \<and> columns (snd (snd (Flush U P w))) = []"
  by (simp add: Flush_def Clear_def Let_def split: sum.splits prod.splits)

section \<open>The left edge of a divider line\<close>







section \<open>The width pass: what a turn of its loops does\<close>

text \<open>What \<open>truncateLongField\<close> returns when it does not panic.\<close>

lemma truncateLongField_result:
  assumes "truncateLongField P w l c m flds cf = Inr (w1, cf1)"
    and "l < length cf" and "c < length (cf ! l)"
  shows "cf1 = cf[l := (cf ! l)[c :=
            (if flags w AND PreserveLongFields = 0 \<and> 0 < termCols w
                \<and> int c = int (length flds) - 1 \<and> m < int (length (cf ! l ! c))
             then take (nat (m - 5)) (cf ! l ! c) @ ''[...]'' else cf ! l ! c)]]
       \<and> (flags w AND PreserveLongFields = 0 \<and> 0 < termCols w
              \<and> int c = int (length flds) - 1 \<and> m < int (length (cf ! l ! c))
            \<longrightarrow> 5 \<le> m \<and> l < length (lines w)
               \<and> lines w1 = (lines w)[l := Replace (lines w ! l) (flds ! c)
                     (Replace (flds ! c) (cf ! l ! c)
                        (take (nat (m - 5)) (cf ! l ! c) @ ColorOrange P @ ''[...]''
                           @ ColorReset P))])
       \<and> (\<not> (flags w AND PreserveLongFields = 0 \<and> 0 < termCols w
              \<and> int c = int (length flds) - 1 \<and> m < int (length (cf ! l ! c)))
            \<longrightarrow> w1 = w)
       \<and> columns w1 = columns w \<and> flags w1 = flags w \<and> termCols w1 = termCols w
       \<and> dividers w1 = dividers w \<and> length (lines w1) = length (lines w)"
  using assms
  by (auto simp: truncateLongField_def index_def sliceTo_def Let_def
           split: if_splits sum.splits)

lemma column_update: "(col::column)\<lparr>textWidth := v\<rparr> = \<lparr>textWidth = v\<rparr>"
  by (cases col) simp

lemma column_eta: "\<lparr>textWidth = textWidth col\<rparr> = (col::column)"
  by (cases col) simp

text \<open>One turn of the loop over the fields, when it does not panic.\<close>

lemma createColumnsFields_step:
  assumes "createColumnsFields P l m flds ((c, f) # rest) (w, cf) = Inr r"
  obtains w2 x where
    "l < length cf" "c < length (cf ! l)" "c < length (columns w)"
    "createColumnsFields P l m flds rest (w2, cf[l := (cf ! l)[c := x]]) = Inr r"
    "x = (if flags w AND PreserveLongFields = 0 \<and> 0 < termCols w
             \<and> int c = int (length flds) - 1 \<and> m < int (length (colorless f))
          then take (nat (m - 5)) (colorless f) @ ''[...]'' else colorless f)"
    "flags w AND PreserveLongFields = 0 \<and> 0 < termCols w
       \<and> int c = int (length flds) - 1 \<and> m < int (length (colorless f))
     \<longrightarrow> 5 \<le> m \<and> l < length (lines w)
        \<and> lines w2 = (lines w)[l := Replace (lines w ! l) (flds ! c)
               (Replace (flds ! c) (colorless f)
                  (take (nat (m - 5)) (colorless f) @ ColorOrange P @ ''[...]''
                     @ ColorReset P))]"
    "\<not> (flags w AND PreserveLongFields = 0 \<and> 0 < termCols w
       \<and> int c = int (length flds) - 1 \<and> m < int (length (colorless f)))
     \<longrightarrow> lines w2 = lines w"
    "columns w2 = (columns w)[c := \<lparr>textWidth = max (textWidth (columns w ! c)) (int (length x))\<rparr>]"
    "flags w2 = flags w" "termCols w2 = termCols w"
    "dividers w2 = dividers w" "length (lines w2) = length (lines w)"
proof -
  from assms have l: "l < length cf" and c: "c < length (cf ! l)"
    by (auto simp: index_def store_def split: if_splits sum.splits)
  let ?cfa = "cf[l := (cf ! l)[c := colorless f]]"
  let ?T = "flags w AND PreserveLongFields = 0 \<and> 0 < termCols w
              \<and> int c = int (length flds) - 1 \<and> m < int (length (colorless f))"
  define x where "x = (if ?T then take (nat (m - 5)) (colorless f) @ ''[...]'' else colorless f)"
  from assms l c obtain w1 cf1 where
    tr: "truncateLongField P w l c m flds ?cfa = Inr (w1, cf1)"
    by (auto simp: index_def store_def split: if_splits sum.splits)
  have la: "l < length ?cfa" "c < length (?cfa ! l)" and lb: "?cfa ! l ! c = colorless f"
    using l c by simp_all
  note res = truncateLongField_result[OF tr la, unfolded lb]
  have cf1: "cf1 = cf[l := (cf ! l)[c := x]]" using res l c by (simp add: x_def)
  have w1: "columns w1 = columns w" "flags w1 = flags w" "termCols w1 = termCols w"
      "dividers w1 = dividers w" "length (lines w1) = length (lines w)"
    using res by blast+
  have cl: "cf1 ! l ! c = x" "l < length cf1" "c < length (cf1 ! l)" using cf1 l c by simp_all
  from assms l c tr cl have cc: "c < length (columns w1)"
    by (auto simp: index_def store_def Let_def split: if_splits sum.splits)
  define w2 where "w2 = (if textWidth (columns w1 ! c) < int (length x)
                    then w1\<lparr>columns := (columns w1)[c := (columns w1 ! c)\<lparr>textWidth := int (length x)\<rparr>]\<rparr>
                    else w1)"
  from assms l c tr cl cc have run: "createColumnsFields P l m flds rest (w2, cf1) = Inr r"
    by (simp add: index_def store_def Let_def w2_def)
  have cols: "columns w2 = (columns w)[c := \<lparr>textWidth = max (textWidth (columns w ! c)) (int (length x))\<rparr>]"
    using cc by (auto simp: w2_def w1 max_def column_update column_eta)
  have lines2: "lines w2 = lines w1" by (simp add: w2_def)
  have t1: "?T \<longrightarrow> 5 \<le> m \<and> l < length (lines w)
        \<and> lines w2 = (lines w)[l := Replace (lines w ! l) (flds ! c)
               (Replace (flds ! c) (colorless f)
                  (take (nat (m - 5)) (colorless f) @ ColorOrange P @ ''[...]''
                     @ ColorReset P))]"
    using res unfolding lines2 by blast
  have t2: "\<not> ?T \<longrightarrow> lines w2 = lines w" using res unfolding lines2 by auto
  show ?thesis
    by (rule that[of w2 x])
       (use l c cc w1 run cols t1 t2 in \<open>simp_all add: cf1 w2_def x_def\<close>)
qed

lemma createColumnsFields_frame:
  assumes "createColumnsFields P l m flds cs (w, cf) = Inr (w', cf')"
  shows "length cf' = length cf \<and> (\<forall>l'. l' \<noteq> l \<longrightarrow> cf' ! l' = cf ! l')
       \<and> length (cf' ! l) = length (cf ! l)
       \<and> (\<forall>c. c \<notin> fst ` set cs \<longrightarrow> cf' ! l ! c = cf ! l ! c)
       \<and> length (columns w') = length (columns w)
       \<and> (\<forall>c. textWidth (columns w ! c) \<le> textWidth (columns w' ! c))
       \<and> flags w' = flags w \<and> termCols w' = termCols w \<and> dividers w' = dividers w
       \<and> length (lines w') = length (lines w)"
  using assms
proof (induction cs arbitrary: w cf)
  case Nil
  then show ?case by simp
next
  case (Cons a cs)
  obtain c f where a: "a = (c, f)" by (cases a)
  from Cons.prems[unfolded a] obtain w2 x where
    st: "l < length cf" "c < length (cf ! l)" "c < length (columns w)"
      "createColumnsFields P l m flds cs (w2, cf[l := (cf ! l)[c := x]]) = Inr (w', cf')"
      "columns w2 = (columns w)[c := \<lparr>textWidth = max (textWidth (columns w ! c)) (int (length x))\<rparr>]"
      "flags w2 = flags w" "termCols w2 = termCols w"
      "dividers w2 = dividers w" "length (lines w2) = length (lines w)"
    by (rule createColumnsFields_step) blast
  note ih = Cons.IH[OF st(4)]
  have mono: "textWidth (columns w ! c') \<le> textWidth (columns w2 ! c')" for c'
    using st(3,5) by (cases "c' = c") simp_all
  have "\<forall>c'. textWidth (columns w ! c') \<le> textWidth (columns w' ! c')"
    using ih mono order_trans by blast
  moreover have "\<forall>c'. c' \<notin> fst ` set (a # cs) \<longrightarrow> cf' ! l ! c' = cf ! l ! c'"
    using ih st(1,2) by (auto simp: a)
  moreover have "\<forall>l'. l' \<noteq> l \<longrightarrow> cf' ! l' = cf ! l'" using ih by auto
  moreover have "length (cf' ! l) = length (cf ! l)" using ih st(1) by simp
  ultimately show ?case using ih st by simp
qed

lemma createColumnsFields_widths:
  assumes "createColumnsFields P l m flds cs (w, cf) = Inr (w', cf')"
    and "c \<in> fst ` set cs"
  shows "c < length (cf' ! l) \<and> c < length (columns w')
       \<and> int (length (cf' ! l ! c)) \<le> textWidth (columns w' ! c)"
  using assms
proof (induction cs arbitrary: w cf)
  case Nil
  then show ?case by simp
next
  case (Cons a cs)
  obtain c0 f where a: "a = (c0, f)" by (cases a)
  from Cons.prems(1)[unfolded a] obtain w2 x where
    st: "l < length cf" "c0 < length (cf ! l)" "c0 < length (columns w)"
      "createColumnsFields P l m flds cs (w2, cf[l := (cf ! l)[c0 := x]]) = Inr (w', cf')"
      "columns w2 = (columns w)[c0 := \<lparr>textWidth = max (textWidth (columns w ! c0)) (int (length x))\<rparr>]"
    by (rule createColumnsFields_step) blast
  show ?case
  proof (cases "c \<in> fst ` set cs")
    case True
    from Cons.IH[OF st(4) True] show ?thesis .
  next
    case False
    with Cons.prems(2) have c: "c = c0" by (simp add: a)
    from createColumnsFields_frame[OF st(4)] False have
      fr: "cf' ! l ! c = cf[l := (cf ! l)[c0 := x]] ! l ! c"
        "length (cf' ! l) = length (cf[l := (cf ! l)[c0 := x]] ! l)"
        "length (columns w') = length (columns w2)"
        "textWidth (columns w2 ! c) \<le> textWidth (columns w' ! c)"
      by blast+
    have "int (length x) \<le> textWidth (columns w2 ! c)" using st(3,5) c by simp
    then show ?thesis using fr st c by simp
  qed
qed


lemma Split_nonempty: "Split s sep \<noteq> []"
  by (induction s) (auto split: list.splits)

lemma fst_set_enumerate: "fst ` set (enumerate k xs) = {k..<k + length xs}"
proof -
  have "set (map fst (enumerate k xs)) = {k..<k + length xs}" by simp
  then show ?thesis by (simp only: set_map)
qed

lemma createColumnsLine_frame:
  assumes "createColumnsLine P l line (w, cf) = Inr (w', cf')"
  shows "length cf' = length cf \<and> (\<forall>l'. l' \<noteq> l \<longrightarrow> cf' ! l' = cf ! l')
       \<and> length (columns w) \<le> length (columns w')
       \<and> (\<forall>c < length (columns w). textWidth (columns w ! c) \<le> textWidth (columns w' ! c))
       \<and> flags w' = flags w \<and> termCols w' = termCols w \<and> dividers w' = dividers w
       \<and> length (lines w') = length (lines w)"
proof (cases "line = []")
  case True
  with assms show ?thesis by (simp add: createColumnsLine_def)
next
  case False
  define flds where "flds = Split line TAB"
  define w1 where "w1 = (if length (columns w) < length flds
                    then w\<lparr>columns := columns w
                             @ replicate (length flds - length (columns w)) \<lparr>textWidth = 0\<rparr>\<rparr>
                    else w)"
  from assms False have l: "l < length cf"
    and run: "createColumnsFields P l (quot (termCols w) (int (length flds)) - 3) flds
                (enumerate 0 flds) (w1, cf[l := replicate (length flds) []]) = Inr (w', cf')"
    by (auto simp: createColumnsLine_def store_def Let_def flds_def w1_def Split_nonempty
             split: if_splits sum.splits)
  note fr = createColumnsFields_frame[OF run]
  have w1: "length (columns w) \<le> length (columns w1)"
    "\<forall>c < length (columns w). columns w1 ! c = columns w ! c"
    "flags w1 = flags w" "termCols w1 = termCols w" "dividers w1 = dividers w"
    "lines w1 = lines w"
    by (auto simp: w1_def nth_append)
  have "textWidth (columns w ! c) \<le> textWidth (columns w' ! c)" if "c < length (columns w)" for c
  proof -
    from that w1(2) have "columns w1 ! c = columns w ! c" by simp
    with fr show ?thesis by metis
  qed
  then show ?thesis using fr w1 l by simp
qed

lemma createColumnsLine_row:
  assumes "createColumnsLine P l line (w, cf) = Inr (w', cf')" and "line \<noteq> []"
    and "c < length (cf' ! l)"
  shows "c < length (columns w') \<and> int (length (cf' ! l ! c)) \<le> textWidth (columns w' ! c)"
proof -
  define flds where "flds = Split line TAB"
  define w1 where "w1 = (if length (columns w) < length flds
                    then w\<lparr>columns := columns w
                             @ replicate (length flds - length (columns w)) \<lparr>textWidth = 0\<rparr>\<rparr>
                    else w)"
  from assms(1,2) have l: "l < length cf"
    and run: "createColumnsFields P l (quot (termCols w) (int (length flds)) - 3) flds
                (enumerate 0 flds) (w1, cf[l := replicate (length flds) []]) = Inr (w', cf')"
    by (auto simp: createColumnsLine_def store_def Let_def flds_def w1_def Split_nonempty
             split: if_splits sum.splits)
  from createColumnsFields_frame[OF run] l have "length (cf' ! l) = length flds" by simp
  with assms(3) have "c \<in> fst ` set (enumerate 0 flds)" by (simp add: fst_set_enumerate)
  from createColumnsFields_widths[OF run this] show ?thesis by simp
qed

lemma createColumnsLines_widths:
  assumes "createColumnsLines P ls (w, cf) = Inr (w', cf')"
    and "\<forall>l < length cf. \<forall>c < length (cf ! l).
           c < length (columns w) \<and> int (length (cf ! l ! c)) \<le> textWidth (columns w ! c)"
  shows "length cf' = length cf
       \<and> (\<forall>l < length cf'. \<forall>c < length (cf' ! l).
           c < length (columns w') \<and> int (length (cf' ! l ! c)) \<le> textWidth (columns w' ! c))"
  using assms
proof (induction ls arbitrary: w cf)
  case Nil
  then show ?case by simp
next
  case (Cons a ls)
  obtain l line where a: "a = (l, line)" by (cases a)
  from Cons.prems(1) obtain w1 cf1 where
    one: "createColumnsLine P l line (w, cf) = Inr (w1, cf1)"
    and rest: "createColumnsLines P ls (w1, cf1) = Inr (w', cf')"
    by (auto simp: a split: sum.splits)
  note fr = createColumnsLine_frame[OF one]
  have inv1: "\<forall>l' < length cf1. \<forall>c < length (cf1 ! l').
           c < length (columns w1) \<and> int (length (cf1 ! l' ! c)) \<le> textWidth (columns w1 ! c)"
  proof (intro allI impI)
    fix l' c assume l': "l' < length cf1" and c: "c < length (cf1 ! l')"
    show "c < length (columns w1) \<and> int (length (cf1 ! l' ! c)) \<le> textWidth (columns w1 ! c)"
    proof (cases "l' = l \<and> line \<noteq> []")
      case True
      with createColumnsLine_row[OF one] c show ?thesis by blast
    next
      case False
      have same: "cf1 ! l' = cf ! l'"
      proof (cases "l' = l")
        case True
        with False one show ?thesis by (simp add: createColumnsLine_def)
      next
        case False
        with fr show ?thesis by blast
      qed
      from l' fr have "l' < length cf" by simp
      with Cons.prems(2) c same have old: "c < length (columns w)"
        "int (length (cf ! l' ! c)) \<le> textWidth (columns w ! c)" by auto
      with fr have "c < length (columns w1)"
        "textWidth (columns w ! c) \<le> textWidth (columns w1 ! c)" by auto
      with old same show ?thesis by simp
    qed
  qed
  from Cons.IH[OF rest inv1] fr show ?case by simp
qed

text \<open>A field that fits its column gets a padding of spaces, none of them negative.\<close>

lemma getPadding_fits:
  assumes "c < length (columns w)" and "int (length f) \<le> textWidth (columns w ! c)"
  shows "\<exists>t lp rp. getPadding w c f = Inr (t, lp, rp) \<and> 0 \<le> t
           \<and> int (length lp) + int (length rp) = t
           \<and> set lp \<subseteq> {CHR '' ''} \<and> set rp \<subseteq> {CHR '' ''}"
proof -
  define d where "d = textWidth (columns w ! c) - int (length f)"
  have d: "0 \<le> d" using assms(2) by (simp add: d_def)
  have half: "0 \<le> x \<Longrightarrow> 0 \<le> x div 2 \<and> 0 \<le> x - x div 2" for x :: int by linarith
  from d half[of d] half[of "d + 1"] half[of "d + 2"] show ?thesis using assms(1)
    by (auto simp: getPadding_def index_def Let_def quot_nonneg Repeat_space add.commute
             simp flip: d_def)
qed


section \<open>Truncation of the last field\<close>

text \<open>
  When the last field fits, or \<open>maxFieldLen\<close> is at least 5, the turn of a line in the
  width pass does not panic.
\<close>

lemma truncateLongField_total:
  assumes "l < length cf" and "c < length (cf ! l)" and "c < length flds"
    and "l < length (lines w)"
    and "flags w AND PreserveLongFields = 0 \<and> 0 < termCols w
           \<and> int c = int (length flds) - 1 \<and> m < int (length (cf ! l ! c)) \<longrightarrow> 5 \<le> m"
  shows "\<exists>r. truncateLongField P w l c m flds cf = Inr r"
  using assms
  by (auto simp: truncateLongField_def index_def sliceTo_def Let_def)

lemma drop_singleton_last:
  assumes "drop k xs = [f]"
  shows "last xs = f \<and> Suc k = length xs \<and> xs ! k = f"
proof -
  from assms have len: "length xs - k = 1" by (metis length_drop length_Cons list.size(3) One_nat_def)
  then have k: "Suc k = length xs" by simp
  have "xs ! k = f" using assms k by (metis Cons_nth_drop_Suc lessI list.inject)
  moreover have "last xs = xs ! k" using k by (metis diff_Suc_1 last_conv_nth length_0_conv nat.simps(3))
  ultimately show ?thesis using k by simp
qed

lemma drop_Cons_nth:
  assumes "drop k xs = f # fs"
  shows "xs ! k = f \<and> drop (Suc k) xs = fs \<and> k < length xs"
proof -
  have k: "k < length xs" using assms by (metis drop_all list.simps(3) not_less)
  then have "drop k xs = xs ! k # drop (Suc k) xs" by (simp add: Cons_nth_drop_Suc)
  with assms k show ?thesis by simp
qed

lemma createColumnsFields_total:
  assumes "l < length cf" and "length (cf ! l) = length flds"
    and "length flds \<le> length (columns w)" and "l < length (lines w)"
    and "drop k flds = fs"
    and "flags w AND PreserveLongFields = 0 \<and> 0 < termCols w
           \<and> m < int (length (colorless (last flds))) \<longrightarrow> 5 \<le> m"
  shows "\<exists>r. createColumnsFields P l m flds (enumerate k fs) (w, cf) = Inr r"
  using assms
proof (induction fs arbitrary: k w cf)
  case Nil
  then show ?case by simp
next
  case (Cons f fs)
  from drop_Cons_nth[OF Cons.prems(5)] have
    k: "k < length flds" and f: "flds ! k = f" and dr: "drop (Suc k) flds = fs" by simp_all
  let ?cfa = "cf[l := (cf ! l)[k := colorless f]]"
  have la: "l < length ?cfa" "k < length (?cfa ! l)" and lb: "?cfa ! l ! k = colorless f"
    using Cons.prems(1,2) k by simp_all
  have lastf: "last flds = f" if "int k = int (length flds) - 1"
  proof -
    from that k have "Suc k = length flds" by simp
    then show ?thesis using f k by (metis diff_Suc_1 last_conv_nth length_0_conv nat.simps(3))
  qed
  have safe: "flags w AND PreserveLongFields = 0 \<and> 0 < termCols w
           \<and> int k = int (length flds) - 1 \<and> m < int (length (?cfa ! l ! k)) \<longrightarrow> 5 \<le> m"
    unfolding lb using Cons.prems(6) lastf by auto
  from truncateLongField_total[OF la k Cons.prems(4) safe]
  obtain w1 cf1 where tr: "truncateLongField P w l k m flds ?cfa = Inr (w1, cf1)" by fastforce
  note res = truncateLongField_result[OF tr la]
  define x where "x = (if flags w AND PreserveLongFields = 0 \<and> 0 < termCols w
                \<and> int k = int (length flds) - 1 \<and> m < int (length (colorless f))
             then take (nat (m - 5)) (colorless f) @ ''[...]'' else colorless f)"
  have cf1: "cf1 = cf[l := (cf ! l)[k := x]]"
    using res Cons.prems(1,2) k unfolding lb by (simp add: x_def)
  have w1: "columns w1 = columns w" "flags w1 = flags w" "termCols w1 = termCols w"
      "length (lines w1) = length (lines w)"
    using res by blast+
  define w2 where "w2 = (if textWidth (columns w1 ! k) < int (length x)
                    then w1\<lparr>columns := (columns w1)[k := (columns w1 ! k)\<lparr>textWidth := int (length x)\<rparr>]\<rparr>
                    else w1)"
  have kc: "k < length (columns w1)" using k Cons.prems(3) w1 by simp
  have unfold: "createColumnsFields P l m flds (enumerate k (f # fs)) (w, cf)
                  = createColumnsFields P l m flds (enumerate (Suc k) fs) (w2, cf1)"
    using Cons.prems(1,2) k tr kc
    by (simp add: index_def store_def Let_def w2_def cf1)
  have pre: "l < length cf1" "length (cf1 ! l) = length flds"
    "length flds \<le> length (columns w2)" "l < length (lines w2)"
    using Cons.prems(1-4) w1 by (simp_all add: cf1 w2_def)
  have safe2: "flags w2 AND PreserveLongFields = 0 \<and> 0 < termCols w2
           \<and> m < int (length (colorless (last flds))) \<longrightarrow> 5 \<le> m"
    using Cons.prems(6) w1 by (simp add: w2_def)
  from Cons.IH[OF pre dr safe2] show ?case unfolding unfold .
qed

lemma createColumnsFields_last:
  assumes "createColumnsFields P l m flds (enumerate k fs) (w, cf) = Inr (w', cf')"
    and "fs \<noteq> []" and "drop k flds = fs"
  shows "cf' ! l ! (length flds - 1)
           = (if flags w AND PreserveLongFields = 0 \<and> 0 < termCols w
                  \<and> m < int (length (colorless (last flds)))
              then take (nat (m - 5)) (colorless (last flds)) @ ''[...]''
              else colorless (last flds))
       \<and> (\<not> (flags w AND PreserveLongFields = 0 \<and> 0 < termCols w
                  \<and> m < int (length (colorless (last flds))))
            \<longrightarrow> lines w' = lines w)"
  using assms
proof (induction fs arbitrary: k w cf)
  case Nil
  then show ?case by simp
next
  case (Cons f fs)
  from drop_Cons_nth[OF Cons.prems(3)] have
    k: "k < length flds" and f: "flds ! k = f" and dr: "drop (Suc k) flds = fs" by simp_all
  from Cons.prems(1) have "createColumnsFields P l m flds ((k, f) # enumerate (Suc k) fs) (w, cf)
      = Inr (w', cf')" by simp
  then obtain w2 x where
    st: "l < length cf" "k < length (cf ! l)"
      "createColumnsFields P l m flds (enumerate (Suc k) fs) (w2, cf[l := (cf ! l)[k := x]])
         = Inr (w', cf')"
      "x = (if flags w AND PreserveLongFields = 0 \<and> 0 < termCols w
             \<and> int k = int (length flds) - 1 \<and> m < int (length (colorless f))
          then take (nat (m - 5)) (colorless f) @ ''[...]'' else colorless f)"
      "\<not> (flags w AND PreserveLongFields = 0 \<and> 0 < termCols w
         \<and> int k = int (length flds) - 1 \<and> m < int (length (colorless f)))
       \<longrightarrow> lines w2 = lines w"
      "flags w2 = flags w" "termCols w2 = termCols w"
    by (rule createColumnsFields_step) blast
  show ?case
  proof (cases "fs = []")
    case True
    with Cons.prems(3) have "drop k flds = [f]" by simp
    from drop_singleton_last[OF this] have lf: "last flds = f" "Suc k = length flds" by simp_all
    then have turn: "int k = int (length flds) - 1" "length flds - 1 = k" by simp_all
    from st(3) True have fin: "w' = w2" "cf' = cf[l := (cf ! l)[k := x]]" by simp_all
    have "cf' ! l ! k = x" using fin st(1,2) by simp
    then show ?thesis using st(4,5) turn lf fin by simp
  next
    case False
    have "Suc k < length flds" using dr False by (metis drop_all not_less)
    then have nt: "\<not> int k = int (length flds) - 1" by simp
    with st(5) have l2: "lines w2 = lines w" by simp
    from Cons.IH[OF st(3) False dr] show ?thesis unfolding st(6,7) l2 .
  qed
qed


text \<open>
  With truncation enabled and a terminal width above 0, the turn of a line whose last
  field fits \<open>maxFieldLen\<close> keeps the colorless form of that field and the stored lines;
  the turn of a line whose last field is longer, when \<open>maxFieldLen\<close> is at least 5, cuts
  the colorless form to its first \<open>maxFieldLen - 5\<close> bytes and the marker.
\<close>

lemma createColumnsLine_last_field:
  assumes "flags w AND PreserveLongFields = 0" and "0 < termCols w"
    and "line \<noteq> []" and "l < length cf" and "l < length (lines w)"
    and "flds = Split line TAB"
    and "maxFieldLen = quot (termCols w) (int (length flds)) - 3"
    and "lastc = colorless (last flds)"
    and "int (length lastc) \<le> maxFieldLen \<or> 5 \<le> maxFieldLen"
  shows "\<exists>w' cf'. createColumnsLine P l line (w, cf) = Inr (w', cf')
           \<and> length (cf' ! l) = length flds
           \<and> last (cf' ! l)
               = (if int (length lastc) \<le> maxFieldLen then lastc
                  else take (nat (maxFieldLen - 5)) lastc @ ''[...]'')
           \<and> (int (length lastc) \<le> maxFieldLen \<longrightarrow> lines w' = lines w)"
proof -
  define w1 where "w1 = (if length (columns w) < length flds
                    then w\<lparr>columns := columns w
                             @ replicate (length flds - length (columns w)) \<lparr>textWidth = 0\<rparr>\<rparr>
                    else w)"
  let ?cf1 = "cf[l := replicate (length flds) []]"
  have ne: "flds \<noteq> []" by (simp add: assms(6) Split_nonempty)
  have w1: "flags w1 = flags w" "termCols w1 = termCols w" "lines w1 = lines w"
    "length flds \<le> length (columns w1)"
    by (auto simp: w1_def)
  have unfold: "createColumnsLine P l line (w, cf)
      = createColumnsFields P l maxFieldLen flds (enumerate 0 flds) (w1, ?cf1)"
    using assms(3,4) ne
    by (simp add: createColumnsLine_def store_def Let_def w1_def flip: assms(6,7))
  have pre: "l < length ?cf1" "length (?cf1 ! l) = length flds" "l < length (lines w1)"
    "drop 0 flds = flds"
    using assms(4,5) w1 by simp_all
  have safe: "flags w1 AND PreserveLongFields = 0 \<and> 0 < termCols w1
           \<and> maxFieldLen < int (length (colorless (last flds))) \<longrightarrow> 5 \<le> maxFieldLen"
    using assms(8,9) by auto
  from createColumnsFields_total[OF pre(1,2) w1(4) pre(3,4) safe]
  obtain w' cf' where run: "createColumnsFields P l maxFieldLen flds (enumerate 0 flds) (w1, ?cf1)
      = Inr (w', cf')" by fastforce
  from createColumnsFields_frame[OF run] pre have len: "length (cf' ! l) = length flds" by simp
  with ne have lastnth: "last (cf' ! l) = cf' ! l ! (length flds - 1)"
    by (metis last_conv_nth length_0_conv)
  from createColumnsFields_last[OF run ne pre(4)] have
    "last (cf' ! l) = (if int (length lastc) \<le> maxFieldLen then lastc
                  else take (nat (maxFieldLen - 5)) lastc @ ''[...]'')"
    "int (length lastc) \<le> maxFieldLen \<longrightarrow> lines w' = lines w"
    unfolding lastnth w1 using assms(1,2,8) by auto
  with run len show ?thesis unfolding unfold by blast
qed

lemma createColumnsLine_last_field_example:
  "(\<exists>w' cf'. createColumnsLine ansiPalette 0 (''ab'' @ [TAB] @ ''abcdefghijkl'')
                ((writerOn 20 0)\<lparr>lines := [''ab'' @ [TAB] @ ''abcdefghijkl'']\<rparr>, [[]])
              = Inr (w', cf')
            \<and> length (cf' ! 0) = 2 \<and> last (cf' ! 0) = ''ab[...]'')
   \<and> (\<exists>w' cf'. createColumnsLine ansiPalette 0 (''ab'' @ [TAB] @ ''abcdefg'')
                ((writerOn 20 0)\<lparr>lines := [''ab'' @ [TAB] @ ''abcdefg'']\<rparr>, [[]])
              = Inr (w', cf')
            \<and> length (cf' ! 0) = 2 \<and> last (cf' ! 0) = ''abcdefg''
            \<and> lines w' = [''ab'' @ [TAB] @ ''abcdefg''])"
proof -
  have long: "\<exists>w' cf'. createColumnsLine ansiPalette 0 (''ab'' @ [TAB] @ ''abcdefghijkl'')
                ((writerOn 20 0)\<lparr>lines := [''ab'' @ [TAB] @ ''abcdefghijkl'']\<rparr>, [[]])
              = Inr (w', cf')
            \<and> length (cf' ! 0) = length [''ab'', ''abcdefghijkl'']
            \<and> last (cf' ! 0)
                = (if int (length ''abcdefghijkl'') \<le> 7 then ''abcdefghijkl''
                   else take (nat (7 - 5)) ''abcdefghijkl'' @ ''[...]'')
            \<and> (int (length ''abcdefghijkl'') \<le> 7
                 \<longrightarrow> lines w' = lines ((writerOn 20 0)\<lparr>lines := [''ab'' @ [TAB] @ ''abcdefghijkl'']\<rparr>))"
    by (rule createColumnsLine_last_field) (simp_all add: run_defs)
  have exact: "\<exists>w' cf'. createColumnsLine ansiPalette 0 (''ab'' @ [TAB] @ ''abcdefg'')
                ((writerOn 20 0)\<lparr>lines := [''ab'' @ [TAB] @ ''abcdefg'']\<rparr>, [[]])
              = Inr (w', cf')
            \<and> length (cf' ! 0) = length [''ab'', ''abcdefg'']
            \<and> last (cf' ! 0)
                = (if int (length ''abcdefg'') \<le> 7 then ''abcdefg''
                   else take (nat (7 - 5)) ''abcdefg'' @ ''[...]'')
            \<and> (int (length ''abcdefg'') \<le> 7
                 \<longrightarrow> lines w' = lines ((writerOn 20 0)\<lparr>lines := [''ab'' @ [TAB] @ ''abcdefg'']\<rparr>))"
    by (rule createColumnsLine_last_field) (simp_all add: run_defs)
  from long exact show ?thesis by (simp add: numeral_2_eq_2 run_defs)
qed

section \<open>Column widths cover the fields\<close>

text \<open>
  C10. After \<open>createColumns\<close> has returned, for every line and every column index valid
  for that line, the column exists and its \<open>textWidth\<close> is at least the length of the
  line's colorless field in that column; so \<open>getPadding\<close> on that field does not
  panic (no repetition with a negative count), its total padding is not negative, and
  the two paddings add up to it.
\<close>

theorem createColumns_widths_cover:
  assumes "createColumns P w = Inr (w', cf)" and "l < length cf" and "c < length (cf ! l)"
  shows "c < length (columns w')
       \<and> int (length (cf ! l ! c)) \<le> textWidth (columns w' ! c)
       \<and> (\<exists>t lp rp. getPadding w' c (cf ! l ! c) = Inr (t, lp, rp) \<and> 0 \<le> t
             \<and> int (length lp) + int (length rp) = t)"
proof -
  from assms(1) have run: "createColumnsLines P (enumerate 0 (lines w))
      (w, replicate (length (lines w)) []) = Inr (w', cf)" by (simp add: createColumns_def)
  have "\<forall>l < length (replicate (length (lines w)) ([]::string list)).
          \<forall>c < length (replicate (length (lines w)) ([]::string list) ! l).
           c < length (columns w)
           \<and> int (length (replicate (length (lines w)) ([]::string list) ! l ! c))
               \<le> textWidth (columns w ! c)" by simp
  from createColumnsLines_widths[OF run this] assms(2,3) have
    ok: "c < length (columns w')" "int (length (cf ! l ! c)) \<le> textWidth (columns w' ! c)"
    by blast+
  from getPadding_fits[OF ok] ok show ?thesis by blast
qed

theorem createColumns_widths_cover_witness:
  "createColumns ansiPalette
     ((writerOn 80 0)\<lparr>lines := [''Name'' @ [TAB] @ ''Age'', ''Alice'' @ [TAB] @ ''30'']\<rparr>)
   = Inr ((writerOn 80 0)\<lparr>lines := [''Name'' @ [TAB] @ ''Age'', ''Alice'' @ [TAB] @ ''30''],
                           columns := [\<lparr>textWidth = 5\<rparr>, \<lparr>textWidth = 3\<rparr>]\<rparr>,
          [[''Name'', ''Age''], [''Alice'', ''30'']])
   \<and> int (length ''Name'') \<le> 5
   \<and> (\<exists>t lp rp.
         getPadding
           ((writerOn 80 0)\<lparr>lines := [''Name'' @ [TAB] @ ''Age'', ''Alice'' @ [TAB] @ ''30''],
                             columns := [\<lparr>textWidth = 5\<rparr>, \<lparr>textWidth = 3\<rparr>]\<rparr>)
           0 ''Name'' = Inr (t, lp, rp)
         \<and> 0 \<le> t \<and> int (length lp) + int (length rp) = t)"
proof -
  have run: "createColumns ansiPalette
     ((writerOn 80 0)\<lparr>lines := [''Name'' @ [TAB] @ ''Age'', ''Alice'' @ [TAB] @ ''30'']\<rparr>)
   = Inr ((writerOn 80 0)\<lparr>lines := [''Name'' @ [TAB] @ ''Age'', ''Alice'' @ [TAB] @ ''30''],
                           columns := [\<lparr>textWidth = 5\<rparr>, \<lparr>textWidth = 3\<rparr>]\<rparr>,
          [[''Name'', ''Age''], [''Alice'', ''30'']])"
    by (simp add: run_defs)
  from createColumns_widths_cover [OF run, of 0 0] show ?thesis
    using run by simp
qed

section \<open>Colour codes and their removal\<close>

text \<open>The shape of a match of the colour expression.\<close>

lemma isCodeByte_not: "\<not> isCodeByte (CHR ''m'')" "\<not> isCodeByte ESC" "\<not> isCodeByte (CHR ''['')"
  "\<not> isCodeByte TAB" "\<not> isCodeByte NL"
  by (simp_all add: isCodeByte_def ESC_def TAB_def NL_def)

lemma matchCode_SomeD:
  assumes "matchCode s = Some n"
  shows "\<exists>run rest. s = ESC # CHR ''['' # run @ CHR ''m'' # rest \<and> run \<noteq> []
           \<and> (\<forall>c \<in> set run. isCodeByte c) \<and> n = length run + 3"
proof -
  from assms obtain r where s: "s = ESC # CHR ''['' # r"
    by (auto simp: matchCode_def split: list.splits if_splits)
  define run where "run = takeWhile isCodeByte r"
  from assms have ne: "run \<noteq> []" and m: "take 1 (drop (length run) r) = ''m''"
    and n: "n = length run + 3"
    by (auto simp: matchCode_def s run_def Let_def split: if_splits)
  have "drop (length run) r = dropWhile isCodeByte r"
    by (simp add: run_def dropWhile_eq_drop)
  with m obtain rest where "dropWhile isCodeByte r = CHR ''m'' # rest"
    by (cases "dropWhile isCodeByte r") (auto split: if_splits)
  then have "r = run @ CHR ''m'' # rest"
    by (metis run_def takeWhile_dropWhile_id)
  moreover have "\<forall>c \<in> set run. isCodeByte c" by (auto simp: run_def dest: set_takeWhileD)
  ultimately show ?thesis using s ne n by blast
qed

lemma matchCode_code:
  assumes "run \<noteq> []" and "\<forall>c \<in> set run. isCodeByte c"
  shows "matchCode (ESC # CHR ''['' # run @ CHR ''m'' # rest) = Some (length run + 3)"
proof -
  have "takeWhile isCodeByte (run @ CHR ''m'' # rest) = run"
    using assms(2) by (simp add: takeWhile_tail isCodeByte_not)
  then show ?thesis using assms(1) by (simp add: matchCode_def)
qed

lemma isColourCode_iff:
  "isColourCode cc \<longleftrightarrow>
     (\<exists>run. run \<noteq> [] \<and> (\<forall>c \<in> set run. isCodeByte c) \<and> cc = ESC # CHR ''['' # run @ ''m'')"
proof
  assume "isColourCode cc"
  then have "matchCode cc = Some (length cc)" by (simp add: isColourCode_def)
  from matchCode_SomeD[OF this] obtain run rest where
    r: "cc = ESC # CHR ''['' # run @ CHR ''m'' # rest" "run \<noteq> []"
      "\<forall>c \<in> set run. isCodeByte c" "length cc = length run + 3" by blast
  from r(1,4) have "rest = []" by simp
  with r show "\<exists>run. run \<noteq> [] \<and> (\<forall>c \<in> set run. isCodeByte c) \<and> cc = ESC # CHR ''['' # run @ ''m''"
    by auto
next
  assume "\<exists>run. run \<noteq> [] \<and> (\<forall>c \<in> set run. isCodeByte c) \<and> cc = ESC # CHR ''['' # run @ ''m''"
  then obtain run where r: "run \<noteq> []" "\<forall>c \<in> set run. isCodeByte c"
    "cc = ESC # CHR ''['' # run @ ''m''" by blast
  from matchCode_code[OF r(1,2), of "[]"] r(3) show "isColourCode cc"
    by (simp add: isColourCode_def)
qed

lemma isColourCode_append: "isColourCode cc \<Longrightarrow> matchCode (cc @ t) = Some (length cc)"
  by (auto simp: isColourCode_iff matchCode_code)

lemma isColourCode_shape:
  assumes "isColourCode cc"
  shows "cc \<noteq> [] \<and> hd cc = ESC \<and> ESC \<notin> set (tl cc) \<and> 0 < length cc"
  using assms isCodeByte_not(2)
  by (auto simp: isColourCode_iff ESC_def)

lemma matchCode_take:
  assumes "matchCode s = Some n"
  shows "isColourCode (take n s) \<and> s = take n s @ drop n s \<and> 0 < n \<and> n \<le> length s"
proof -
  from matchCode_SomeD[OF assms] obtain run rest where
    r: "s = ESC # CHR ''['' # run @ CHR ''m'' # rest" "run \<noteq> []"
      "\<forall>c \<in> set run. isCodeByte c" "n = length run + 3" by blast
  let ?cc = "ESC # CHR ''['' # run @ ''m''"
  have sx: "s = ?cc @ rest" and ln: "n = length ?cc" using r(1,4) by simp_all
  have tk: "take n s = ?cc" "drop n s = rest" unfolding sx ln by (simp_all del: append_Cons)
  have "isColourCode ?cc" using r(2,3) by (auto simp: isColourCode_iff)
  then show ?thesis unfolding tk using sx ln by simp
qed

lemma matchCode_not_ESC: "c \<noteq> ESC \<Longrightarrow> matchCode (c # s) = None"
  by (simp add: matchCode_def split: list.splits)


lemma isColourCode_split:
  assumes "isColourCode cc"
  obtains body where "cc = ESC # body" "ESC \<notin> set body" "length cc - 1 = length body"
  using assms isColourCode_shape[OF assms] by (cases cc) auto

lemma colourCodesOnly_plain [simp]: "c \<noteq> ESC \<Longrightarrow> colourCodesOnly (c # cs) = colourCodesOnly cs"
  by simp

lemma colourCodesOnly_code:
  assumes "isColourCode cc"
  shows "colourCodesOnly (cc @ t) = colourCodesOnly t"
proof -
  from assms obtain body where b: "cc = ESC # body" "length cc - 1 = length body"
    by (rule isColourCode_split)
  have "matchCode (ESC # body @ t) = Some (length cc)"
    using isColourCode_append[OF assms, of t] b(1) by simp
  then show ?thesis using b by simp
qed

lemma FindAllString_plain: "c \<noteq> ESC \<Longrightarrow> FindAllString (c # cs) = FindAllString cs"
  by (simp add: matchCode_not_ESC)

lemma FindAllString_code:
  assumes "isColourCode cc"
  shows "FindAllString (cc @ t) = cc # FindAllString t"
proof -
  from assms obtain body where b: "cc = ESC # body" "length cc - 1 = length body"
    by (rule isColourCode_split)
  have m: "matchCode (ESC # body @ t) = Some (length cc)"
    using isColourCode_append[OF assms, of t] b(1) by simp
  have "take (length cc) (ESC # body @ t) = cc" using b(1) by simp
  then show ?thesis using b m by simp
qed

lemma colourCodesOnly_induct [consumes 1, case_names Nil Plain Code]:
  assumes "colourCodesOnly s" and "P []"
    and "\<And>c cs. c \<noteq> ESC \<Longrightarrow> colourCodesOnly cs \<Longrightarrow> P cs \<Longrightarrow> P (c # cs)"
    and "\<And>cc t. isColourCode cc \<Longrightarrow> colourCodesOnly t \<Longrightarrow> P t \<Longrightarrow> P (cc @ t)"
  shows "P s"
  using assms(1)
proof (induction "length s" arbitrary: s rule: less_induct)
  case less
  show ?case
  proof (cases s)
    case Nil
    then show ?thesis using assms(2) by simp
  next
    case (Cons c cs)
    show ?thesis
    proof (cases "c = ESC")
      case False
      with less.prems Cons have "colourCodesOnly cs" by simp
      with less.hyps[of cs] Cons False assms(3) show ?thesis by simp
    next
      case True
      with less.prems Cons obtain n where n: "matchCode s = Some n"
        and rest: "colourCodesOnly (drop (n - 1) cs)"
        by (auto split: option.splits)
      from matchCode_take[OF n] have
        t: "isColourCode (take n s)" "s = take n s @ drop n s" "0 < n" by simp_all
      have dr: "drop (n - 1) cs = drop n s" using t(3) Cons by (cases n) simp_all
      have "length (drop n s) < length s" using t(3) Cons by simp
      from less.hyps[OF this] rest dr have "P (drop n s)" by simp
      with assms(4)[OF t(1), of "drop n s"] rest dr t(2) show ?thesis by simp
    qed
  qed
qed

text \<open>Replacing a colour code by the empty string, in a string of colour codes only.\<close>

lemma replaceFrom_plain:
  assumes "isColourCode cc" and "c \<noteq> ESC"
  shows "replaceFrom (c # cs) cc new = c # replaceFrom cs cc new"
proof -
  from assms(1) obtain body where b: "cc = ESC # body" by (rule isColourCode_split)
  then have "take (length cc) (c # cs) \<noteq> cc" using assms(2) by auto
  then show ?thesis by simp
qed

lemma replaceFrom_plain_run:
  assumes "isColourCode cc" and "ESC \<notin> set xs"
  shows "replaceFrom (xs @ ys) cc new = xs @ replaceFrom ys cc new"
  using assms(2)
proof (induction xs)
  case Nil
  then show ?case by simp
next
  case (Cons a xs)
  then have "a \<noteq> ESC" and "ESC \<notin> set xs" by auto
  with Cons.IH replaceFrom_plain[OF assms(1), of a "xs @ ys" new] show ?case by simp
qed

lemma replaceFrom_same:
  assumes "isColourCode cc"
  shows "replaceFrom (cc @ t) cc new = new @ replaceFrom t cc new"
proof -
  from assms obtain body where b: "cc = ESC # body" "length cc - 1 = length body"
    by (rule isColourCode_split)
  have "take (length cc) (ESC # body @ t) = cc" using b(1) by simp
  then show ?thesis using b by simp
qed

lemma replaceFrom_other:
  assumes "isColourCode cc" and "isColourCode c'" and "c' \<noteq> cc"
  shows "replaceFrom (c' @ t) cc new = c' @ replaceFrom t cc new"
proof -
  from assms(2) obtain body where b: "c' = ESC # body" "ESC \<notin> set body"
    by (rule isColourCode_split)
  have "take (length cc) (c' @ t) \<noteq> cc"
  proof
    assume eq: "take (length cc) (c' @ t) = cc"
    then have "c' @ t = cc @ drop (length cc) (c' @ t)" by (metis append_take_drop_id)
    then have "matchCode (c' @ t) = Some (length cc)"
      using isColourCode_append[OF assms(1)] by metis
    with isColourCode_append[OF assms(2), of t] have len: "length c' = length cc" by simp
    with eq have "c' = cc" by simp
    with assms(3) show False by simp
  qed
  then have "replaceFrom (ESC # body @ t) cc new = ESC # replaceFrom (body @ t) cc new"
    using b(1) by simp
  then show ?thesis using b replaceFrom_plain_run[OF assms(1) b(2)] by simp
qed

lemma replaceFrom_colourCodesOnly:
  assumes "colourCodesOnly s" and "isColourCode cc"
  shows "colourCodesOnly (replaceFrom s cc [])
       \<and> set (FindAllString (replaceFrom s cc [])) \<subseteq> set (FindAllString s) - {cc}"
  using assms(1)
proof (induction s rule: colourCodesOnly_induct)
  case Nil
  then show ?case by simp
next
  case (Plain c cs)
  then show ?case
    by (simp add: replaceFrom_plain[OF assms(2)] FindAllString_plain
          del: replaceFrom.simps(2) FindAllString.simps(2))
next
  case (Code c' t)
  show ?case
  proof (cases "c' = cc")
    case True
    with Code show ?thesis
      by (auto simp: replaceFrom_same[OF assms(2)] FindAllString_code
            simp del: replaceFrom.simps(2) FindAllString.simps(2))
  next
    case False
    with Code show ?thesis
      by (auto simp: replaceFrom_other[OF assms(2) Code(1)] FindAllString_code
            colourCodesOnly_code simp del: replaceFrom.simps(2) FindAllString.simps(2))
  qed
qed

lemma FindAllString_codes:
  assumes "colourCodesOnly s"
  shows "\<forall>cc \<in> set (FindAllString s). isColourCode cc"
  using assms
  by (induction s rule: colourCodesOnly_induct)
     (simp_all add: FindAllString_plain FindAllString_code del: FindAllString.simps(2))

lemma no_codes_no_ESC:
  assumes "colourCodesOnly s" and "FindAllString s = []"
  shows "ESC \<notin> set s"
  using assms
  by (induction s rule: colourCodesOnly_induct)
     (simp_all add: FindAllString_plain FindAllString_code del: FindAllString.simps(2))

lemma stripCodes_no_ESC:
  assumes "colourCodesOnly s" and "\<forall>cc \<in> set ccs. isColourCode cc"
    and "set (FindAllString s) \<subseteq> set ccs"
  shows "ESC \<notin> set (stripCodes ccs s)"
  using assms
proof (induction ccs arbitrary: s)
  case Nil
  then show ?case by (simp add: no_codes_no_ESC)
next
  case (Cons cc ccs)
  from Cons.prems(2) have cc: "isColourCode cc" by simp
  then have "cc \<noteq> []" using isColourCode_shape by blast
  then have rep: "Replace s cc [] = replaceFrom s cc []" by (simp add: Replace_def)
  from replaceFrom_colourCodesOnly[OF Cons.prems(1) cc] have
    r: "colourCodesOnly (replaceFrom s cc [])"
      "set (FindAllString (replaceFrom s cc [])) \<subseteq> set (FindAllString s) - {cc}" by simp_all
  from r(2) Cons.prems(3) have "set (FindAllString (replaceFrom s cc [])) \<subseteq> set ccs" by auto
  from Cons.IH[OF r(1) _ this] Cons.prems(2) show ?case by (simp add: rep)
qed

lemma colorless_no_ESC:
  assumes "colourCodesOnly s"
  shows "ESC \<notin> set (colorless s)"
  unfolding colorless_def
  by (rule stripCodes_no_ESC[OF assms FindAllString_codes[OF assms]]) simp

section \<open>Stripping colours from the rendered output\<close>

text \<open>Splitting at a byte that no colour code holds keeps the pieces free of broken codes.\<close>

lemma Split_plain_run:
  assumes "sep \<notin> set xs"
  shows "Split (xs @ ys) sep = (xs @ hd (Split ys sep)) # tl (Split ys sep)"
  using assms
proof (induction xs)
  case Nil
  then show ?case using Split_nonempty[of ys sep] by simp
next
  case (Cons a xs)
  then show ?case by (auto split: list.splits)
qed

lemma isColourCode_bytes:
  assumes "isColourCode cc"
  shows "TAB \<notin> set cc \<and> NL \<notin> set cc"
  using assms isCodeByte_not
  by (auto simp: isColourCode_iff ESC_def TAB_def NL_def)

lemma Split_colourCodesOnly:
  assumes "colourCodesOnly s" and "sep = TAB \<or> sep = NL"
  shows "\<forall>f \<in> set (Split s sep). colourCodesOnly f"
  using assms(1)
proof (induction s rule: colourCodesOnly_induct)
  case Nil
  then show ?case by simp
next
  case (Plain c cs)
  obtain f fs where sp: "Split cs sep = f # fs" using Split_nonempty[of cs sep] by (cases "Split cs sep") auto
  with Plain show ?case by auto
next
  case (Code cc t)
  obtain f fs where sp: "Split t sep = f # fs" using Split_nonempty[of t sep] by (cases "Split t sep") auto
  have "sep \<notin> set cc" using isColourCode_bytes[OF Code(1)] assms(2) by auto
  from Split_plain_run[OF this, of t] sp have "Split (cc @ t) sep = (cc @ f) # fs" by simp
  with Code sp show ?case by (simp add: colourCodesOnly_code)
qed


text \<open>The width pass keeps escape bytes out of the colorless fields.\<close>

lemma createColumnsFields_no_ESC:
  assumes "createColumnsFields P l m flds cs (w, cf) = Inr (w', cf')"
    and "\<forall>f \<in> snd ` set cs. ESC \<notin> set (colorless f)"
    and "\<forall>row \<in> set cf. \<forall>x \<in> set row. ESC \<notin> set x"
  shows "\<forall>row \<in> set cf'. \<forall>x \<in> set row. ESC \<notin> set x"
  using assms
proof (induction cs arbitrary: w cf)
  case Nil
  then show ?case by simp
next
  case (Cons a cs)
  obtain c f where a: "a = (c, f)" by (cases a)
  from Cons.prems(1)[unfolded a] obtain w2 x where
    st: "l < length cf"
      "createColumnsFields P l m flds cs (w2, cf[l := (cf ! l)[c := x]]) = Inr (w', cf')"
      "x = (if flags w AND PreserveLongFields = 0 \<and> 0 < termCols w
             \<and> int c = int (length flds) - 1 \<and> m < int (length (colorless f))
          then take (nat (m - 5)) (colorless f) @ ''[...]'' else colorless f)"
    by (rule createColumnsFields_step) blast
  from Cons.prems(2) have f: "ESC \<notin> set (colorless f)" by (simp add: a)
  then have "ESC \<notin> set (take (nat (m - 5)) (colorless f))" by (meson in_set_takeD)
  with f st(3) have x: "ESC \<notin> set x" by (simp add: ESC_def)
  have row: "\<forall>y \<in> set ((cf ! l)[c := x]). ESC \<notin> set y"
  proof
    fix y assume "y \<in> set ((cf ! l)[c := x])"
    then have "y = x \<or> y \<in> set (cf ! l)" using set_update_subset_insert by fastforce
    with x Cons.prems(3) st(1) show "ESC \<notin> set y" by auto
  qed
  have "\<forall>row \<in> set (cf[l := (cf ! l)[c := x]]). \<forall>y \<in> set row. ESC \<notin> set y"
  proof
    fix r assume "r \<in> set (cf[l := (cf ! l)[c := x]])"
    then have "r = (cf ! l)[c := x] \<or> r \<in> set cf" using set_update_subset_insert by fastforce
    with row Cons.prems(3) show "\<forall>y \<in> set r. ESC \<notin> set y" by auto
  qed
  from Cons.IH[OF st(2) _ this] Cons.prems(2) show ?case by simp
qed

lemma createColumnsLine_no_ESC:
  assumes "createColumnsLine P l line (w, cf) = Inr (w', cf')"
    and "\<forall>f \<in> set (Split line TAB). ESC \<notin> set (colorless f)"
    and "\<forall>row \<in> set cf. \<forall>x \<in> set row. ESC \<notin> set x"
  shows "\<forall>row \<in> set cf'. \<forall>x \<in> set row. ESC \<notin> set x"
proof (cases "line = []")
  case True
  with assms show ?thesis by (simp add: createColumnsLine_def)
next
  case False
  define flds where "flds = Split line TAB"
  from assms(1) False obtain w1 where l: "l < length cf"
    and run: "createColumnsFields P l (quot (termCols w) (int (length flds)) - 3) flds
                (enumerate 0 flds) (w1, cf[l := replicate (length flds) []]) = Inr (w', cf')"
    by (auto simp: createColumnsLine_def store_def Let_def flds_def Split_nonempty
             split: if_splits sum.splits)
  have snd: "snd ` set (enumerate 0 flds) = set flds"
  proof -
    have "set (map snd (enumerate 0 flds)) = set flds" by simp
    then show ?thesis by (simp only: set_map)
  qed
  have noesc: "\<forall>row \<in> set (cf[l := replicate (length flds) []]). \<forall>x \<in> set row. ESC \<notin> set x"
  proof
    fix r assume "r \<in> set (cf[l := replicate (length flds) []])"
    then have "r = replicate (length flds) [] \<or> r \<in> set cf"
      using set_update_subset_insert by fastforce
    with assms(3) show "\<forall>x \<in> set r. ESC \<notin> set x" by auto
  qed
  have "\<forall>f \<in> snd ` set (enumerate 0 flds). ESC \<notin> set (colorless f)"
    unfolding snd using assms(2) by (simp add: flds_def)
  from createColumnsFields_no_ESC[OF run this noesc] show ?thesis .
qed

lemma createColumnsLines_no_ESC:
  assumes "createColumnsLines P ls (w, cf) = Inr (w', cf')"
    and "\<forall>line \<in> snd ` set ls. \<forall>f \<in> set (Split line TAB). ESC \<notin> set (colorless f)"
    and "\<forall>row \<in> set cf. \<forall>x \<in> set row. ESC \<notin> set x"
  shows "(\<forall>row \<in> set cf'. \<forall>x \<in> set row. ESC \<notin> set x)
       \<and> flags w' = flags w \<and> dividers w' = dividers w"
  using assms
proof (induction ls arbitrary: w cf)
  case Nil
  then show ?case by simp
next
  case (Cons a ls)
  obtain l line where a: "a = (l, line)" by (cases a)
  from Cons.prems(1) obtain w1 cf1 where
    one: "createColumnsLine P l line (w, cf) = Inr (w1, cf1)"
    and rest: "createColumnsLines P ls (w1, cf1) = Inr (w', cf')"
    by (auto simp: a split: sum.splits)
  from createColumnsLine_frame[OF one] have fr: "flags w1 = flags w" "dividers w1 = dividers w"
    by simp_all
  from Cons.prems(2) have "\<forall>f \<in> set (Split line TAB). ESC \<notin> set (colorless f)"
    by (simp add: a)
  from createColumnsLine_no_ESC[OF one this Cons.prems(3)]
  have "\<forall>row \<in> set cf1. \<forall>x \<in> set row. ESC \<notin> set x" .
  from Cons.IH[OF rest _ this] Cons.prems(2) fr show ?case by simp
qed

text \<open>The table pass writes glyphs, spaces, newlines and fields.\<close>

lemma glyphs_no_ESC:
  assumes "d = asciiDividers \<or> d = boxDividers"
  shows "ESC \<notin> set (HLine d) \<and> ESC \<notin> set (VLine d) \<and> ESC \<notin> set (TL d) \<and> ESC \<notin> set (TR d)
       \<and> ESC \<notin> set (BL d) \<and> ESC \<notin> set (BR d) \<and> ESC \<notin> set (Cross d) \<and> ESC \<notin> set (TUp d)
       \<and> ESC \<notin> set (TDown d) \<and> ESC \<notin> set (VLeft d) \<and> ESC \<notin> set (VRight d)"
  using assms by (auto simp: asciiDividers_def boxDividers_def box_def ESC_def)

lemma Repeat_bytes: "Repeat s n = Inr r \<Longrightarrow> set r \<subseteq> set s"
  by (auto simp: Repeat_def split: if_splits)

lemma getPadding_spaces:
  assumes "getPadding w c f = Inr (t, lp, rp)"
  shows "set lp \<subseteq> {CHR '' ''} \<and> set rp \<subseteq> {CHR '' ''}"
  using assms
  by (auto simp: getPadding_def Let_def split: sum.splits if_splits dest!: Repeat_bytes)

lemma updateHLine_no_ESC:
  assumes "updateHLine w h n l lr lf = Inr h1"
    and "dividers w = asciiDividers \<or> dividers w = boxDividers" and "ESC \<notin> set h"
  shows "ESC \<notin> set h1"
proof -
  note g = glyphs_no_ESC[OF assms(2)]
  have rep: "Repeat (HLine (dividers w)) k = Inr r \<Longrightarrow> ESC \<notin> set r" for k r
    using g Repeat_bytes by blast
  from assms(1,3) g show ?thesis
    by (auto simp: updateHLine_def Let_def split: if_splits sum.splits dest: rep)
qed


lemma index_mem: "index xs i = Inr x \<Longrightarrow> x \<in> set xs"
  by (auto simp: index_def split: if_splits)

lemma createTableFields_no_ESC:
  assumes "createTableFields w cf l n cs (fb, h, p) = Inr (fb', h', p')"
    and "flags w AND StripColours \<noteq> 0"
    and "dividers w = asciiDividers \<or> dividers w = boxDividers"
    and "\<forall>row \<in> set cf. \<forall>x \<in> set row. ESC \<notin> set x"
    and "ESC \<notin> set fb" and "ESC \<notin> set h" and "ESC \<notin> set p"
  shows "ESC \<notin> set fb' \<and> ESC \<notin> set h' \<and> ESC \<notin> set p'"
  using assms
proof (induction cs arbitrary: fb h p)
  case Nil
  then show ?case by simp
next
  case (Cons a cs)
  obtain c f0 where a: "a = (c, f0)" by (cases a)
  from Cons.prems(1,2) obtain row cl t lp rp p1 h1 where
    row: "index cf l = Inr row" and cl: "index row c = Inr cl"
    and pad: "getPadding w c cl = Inr (t, lp, rp)"
    and p1: "(if l = 0 then updateHLine w p (int (length cl) + t + 1) (int l)
                 (int l = int (length (lines w)) - 1) (int c = int n - 1) else Inr p) = Inr p1"
    and h1: "updateHLine w h (int (length cl) + t + 1) (int l + 1)
                 (int l = int (length (lines w)) - 1) (int c = int n - 1) = Inr h1"
    and rest: "createTableFields w cf l n cs
                 (if c = 0 then fb @ VLine (dividers w) @ lp @ cl @ rp @ VLine (dividers w)
                  else fb @ lp @ cl @ rp @ VLine (dividers w), h1, p1) = Inr (fb', h', p')"
    by (auto simp: a Let_def split: sum.splits prod.splits)
  from index_mem[OF row] index_mem[OF cl] Cons.prems(4) have clok: "ESC \<notin> set cl" by blast
  from getPadding_spaces[OF pad] have sp: "ESC \<notin> set lp" "ESC \<notin> set rp"
    by (auto simp: ESC_def)
  note g = glyphs_no_ESC[OF Cons.prems(3)]
  have fb1: "ESC \<notin> set (if c = 0 then fb @ VLine (dividers w) @ lp @ cl @ rp @ VLine (dividers w)
                  else fb @ lp @ cl @ rp @ VLine (dividers w))"
    using Cons.prems(5) clok sp g by simp
  have h1ok: "ESC \<notin> set h1" by (rule updateHLine_no_ESC[OF h1 Cons.prems(3,6)])
  have p1ok: "ESC \<notin> set p1"
  proof (cases "l = 0")
    case True
    with p1 have "updateHLine w p (int (length cl) + t + 1) (int l)
                 (int l = int (length (lines w)) - 1) (int c = int n - 1) = Inr p1" by simp
    from updateHLine_no_ESC[OF this Cons.prems(3,7)] show ?thesis .
  next
    case False
    with p1 Cons.prems(7) show ?thesis by simp
  qed
  from Cons.IH[OF rest Cons.prems(2,3,4) fb1 h1ok p1ok] show ?case .
qed

lemma createTableLine_no_ESC:
  assumes "createTableLine w cf l line fb = Inr fb'"
    and "flags w AND StripColours \<noteq> 0"
    and "dividers w = asciiDividers \<or> dividers w = boxDividers"
    and "\<forall>row \<in> set cf. \<forall>x \<in> set row. ESC \<notin> set x"
    and "ESC \<notin> set fb"
  shows "ESC \<notin> set fb'"
proof (cases "line = []")
  case True
  with assms show ?thesis by (simp add: createTableLine_def)
next
  case False
  with assms(1) obtain fb1 h p where
    run: "createTableFields w cf l (length (Split line TAB)) (enumerate 0 (Split line TAB))
            (fb, [], []) = Inr (fb1, h, p)"
    and out: "fb' = (if l = 0 then p @ [NL] @ fb1 else fb1) @ [NL] @ h @ [NL]"
    by (auto simp: createTableLine_def Let_def split: sum.splits prod.splits)
  from createTableFields_no_ESC[OF run assms(2,3,4,5)] have
    "ESC \<notin> set fb1" "ESC \<notin> set h" "ESC \<notin> set p" by simp_all
  then show ?thesis unfolding out by (simp add: ESC_def NL_def)
qed

lemma createTableLines_no_ESC:
  assumes "createTableLines w cf ls fb = Inr fb'"
    and "flags w AND StripColours \<noteq> 0"
    and "dividers w = asciiDividers \<or> dividers w = boxDividers"
    and "\<forall>row \<in> set cf. \<forall>x \<in> set row. ESC \<notin> set x"
    and "ESC \<notin> set fb"
  shows "ESC \<notin> set fb'"
  using assms
proof (induction ls arbitrary: fb)
  case Nil
  then show ?case by simp
next
  case (Cons a ls)
  obtain l line where a: "a = (l, line)" by (cases a)
  from Cons.prems(1) obtain fb1 where
    one: "createTableLine w cf l line fb = Inr fb1"
    and rest: "createTableLines w cf ls fb1 = Inr fb'"
    by (auto simp: a split: sum.splits)
  from createTableLine_no_ESC[OF one Cons.prems(2,3,4,5)] have "ESC \<notin> set fb1" .
  from Cons.IH[OF rest Cons.prems(2,3,4) this] show ?case .
qed

lemma render_no_ESC:
  assumes "render U P w = Inr (out, w1)"
    and "flags w AND StripColours \<noteq> 0"
    and "dividers w = asciiDividers \<or> dividers w = boxDividers"
    and "colourCodesOnly (cleanInvisibleChars U (buffer w))"
  shows "ESC \<notin> set out"
proof -
  define ls0 where "ls0 = Split (cleanInvisibleChars U (buffer w)) NL"
  define ls where "ls = (if length (last ls0) = 0 then butlast ls0 else ls0)"
  from assms(1) have fmt: "formatBuffer P (w\<lparr>lines := ls\<rparr>) = Inr (out, w1)"
    by (simp add: render_def Let_def ls0_def ls_def split: if_splits)
  then obtain cf where
    cols: "createColumns P (w\<lparr>lines := ls\<rparr>) = Inr (w1, cf)"
    and tab: "createTable w1 cf = Inr out"
    by (auto simp: formatBuffer_def split: sum.splits prod.splits)
  have "set ls \<subseteq> set ls0" by (auto simp: ls_def dest: in_set_butlastD)
  moreover have "\<forall>line \<in> set ls0. colourCodesOnly line"
    unfolding ls0_def by (rule Split_colourCodesOnly[OF assms(4)]) simp
  ultimately have lines_ok: "\<forall>line \<in> set ls. colourCodesOnly line" by blast
  have fields_ok: "\<forall>line \<in> snd ` set (enumerate 0 ls).
                      \<forall>f \<in> set (Split line TAB). ESC \<notin> set (colorless f)"
  proof -
    have "snd ` set (enumerate 0 ls) = set ls"
    proof -
      have "set (map snd (enumerate 0 ls)) = set ls" by simp
      then show ?thesis by (simp only: set_map)
    qed
    moreover have "\<forall>f \<in> set (Split line TAB). ESC \<notin> set (colorless f)" if "line \<in> set ls" for line
    proof
      fix f assume "f \<in> set (Split line TAB)"
      with Split_colourCodesOnly[of line TAB] lines_ok that have "colourCodesOnly f" by blast
      then show "ESC \<notin> set (colorless f)" by (rule colorless_no_ESC)
    qed
    ultimately show ?thesis by blast
  qed
  from cols have run: "createColumnsLines P (enumerate 0 ls)
      (w\<lparr>lines := ls\<rparr>, replicate (length ls) []) = Inr (w1, cf)"
    by (simp add: createColumns_def)
  have init: "\<forall>row \<in> set (replicate (length ls) ([]::string list)). \<forall>x \<in> set row. ESC \<notin> set x"
    by simp
  from createColumnsLines_no_ESC[OF run fields_ok init] have
    cf: "\<forall>row \<in> set cf. \<forall>x \<in> set row. ESC \<notin> set x"
    and fl: "flags w1 = flags w" "dividers w1 = dividers w" by simp_all
  from tab have "createTableLines w1 cf (enumerate 0 (lines w1)) [] = Inr out"
    by (simp add: createTable_def)
  from createTableLines_no_ESC[OF this _ _ cf] assms(2,3) fl show ?thesis by simp
qed


text \<open>
  C7, as stated: with the strip-colours flag set the rendered output holds no escape
  byte, for every input buffer. The sanitizer keeps every escape byte and the flag
  removes matches of the colour expression only: the erase-line sequence \<open>ESC [2K\<close> is
  no match, and it reaches the output with its escape byte.
\<close>

theorem strip_colours_keeps_other_escapes_counterexample:
  "(case Flush asciiTables ansiPalette
           (fst (Write (writerOn 80 (StripColours OR AsciiTable))
                   (ESC # ''[2Kdone'' @ [NL])))
    of (r, out, w) \<Rightarrow> (r, out))
   = (Returned None,
      Some (''+---------+'' @ [NL] @ ''|'' @ ESC # ''[2Kdone |'' @ [NL]
            @ ''+---------+'' @ [NL]))
   \<and> ESC \<in> set (''+---------+'' @ [NL] @ ''|'' @ ESC # ''[2Kdone |'' @ [NL]
                  @ ''+---------+'' @ [NL])"
  by (simp add: run_defs)

text \<open>
  C7, amended: for a writer made by \<open>NewWriter\<close> with the strip-colours flag set, if
  every escape byte of the sanitized buffer starts a colour code (a match of
  \<open>\033\[[0-9;]+m\<close>), then the bytes that \<open>Flush\<close> hands to the sink hold no escape
  byte.
\<close>

theorem Flush_strips_colour_codes:
  assumes "flags w AND StripColours \<noteq> 0"
    and "dividers w = asciiDividers \<or> dividers w = boxDividers"
    and "colourCodesOnly (cleanInvisibleChars U (buffer w))"
    and "Flush U P w = (r, Some out, w')"
  shows "ESC \<notin> set out"
proof -
  from assms(4) obtain w1 where "render U P w = Inr (out, w1)"
    by (auto simp: Flush_def Let_def split: sum.splits prod.splits if_splits)
  from render_no_ESC[OF this assms(1,2,3)] show ?thesis .
qed

theorem Flush_strips_colour_codes_witness:
  "fst (snd (Flush asciiTables ansiPalette
               (fst (Write (writerOn 80 (StripColours OR AsciiTable))
                       (ESC # ''[31mred'' @ ESC # ''[0m'' @ [TAB] @ ''plain'' @ [NL])))))
   = Some (''+----+------+'' @ [NL] @ ''|red |plain |'' @ [NL] @ ''+----+------+'' @ [NL])
   \<and> ESC \<notin> set (''+----+------+'' @ [NL] @ ''|red |plain |'' @ [NL]
                  @ ''+----+------+'' @ [NL])"
proof -
  let ?w = "fst (Write (writerOn 80 (StripColours OR AsciiTable))
                   (ESC # ''[31mred'' @ ESC # ''[0m'' @ [TAB] @ ''plain'' @ [NL]))"
  let ?out = "''+----+------+'' @ [NL] @ ''|red |plain |'' @ [NL] @ ''+----+------+'' @ [NL]"
  have out: "fst (snd (Flush asciiTables ansiPalette ?w)) = Some ?out"
    by (simp add: run_defs)
  then obtain r w' where fl: "Flush asciiTables ansiPalette ?w = (r, Some ?out, w')"
    by (metis prod.collapse)
  have h1: "flags ?w AND StripColours \<noteq> 0" by (simp add: run_defs)
  have h2: "dividers ?w = asciiDividers \<or> dividers ?w = boxDividers"
    by (simp add: run_defs)
  have h3: "colourCodesOnly (cleanInvisibleChars asciiTables (buffer ?w))"
    by (simp add: run_defs)
  from Flush_strips_colour_codes [OF h1 h2 h3 fl] out show ?thesis by simp
qed

section \<open>Inputs on which the writer fails its description\<close>

text \<open>
  C2. The claim: the formatting stages run to completion on every input, and truncating a
  long last field never slices out of range, for any positive terminal width. On a
  terminal of 20 columns a row of three fields has \<open>maxFieldLen = 20 / 3 - 3 = 3\<close>; its
  last field \<open>description\<close> is longer, and \<open>colorlessFields[l][c][:maxFieldLen-5]\<close> is a
  slice to \<open>-2\<close>: \<open>Flush\<close> panics.
\<close>

theorem Flush_panics_on_narrow_terminal:
  "fst (Flush asciiTables ansiPalette
          (fst (Write (writerOn 20 0)
                  (''id'' @ [TAB] @ ''name'' @ [TAB] @ ''description'' @ [NL]))))
   = Panicked SliceOutOfRange"
  by (simp add: run_defs)

text \<open>
  C4. The claim: for every terminal width above 0, a last field whose colorless length
  exceeds \<open>maxFieldLen\<close> is replaced by its first \<open>maxFieldLen - 5\<close> characters followed
  by the marker. On a terminal of 10 columns a row of two fields has \<open>maxFieldLen = 2\<close>;
  the last field \<open>abc\<close> is longer, the slice to \<open>-3\<close> panics and nothing is replaced.
  On a terminal of 20 columns (\<open>maxFieldLen = 7\<close>) a last field of twelve visible
  characters with a colour code inside is not found by \<open>strings.Replace\<close>: only its
  colorless copy is cut, the stored line is unchanged and the row is rendered with the
  whole field.
\<close>

theorem truncation_fails_on_small_budget_and_inner_colour:
  "createColumnsLine ansiPalette 0 (''a'' @ [TAB] @ ''abc'')
     ((writerOn 10 0)\<lparr>lines := [''a'' @ [TAB] @ ''abc'']\<rparr>, [[]])
   = Inl SliceOutOfRange
   \<and> (case render asciiTables ansiPalette
              (fst (Write (writerOn 20 AsciiTable)
                      (''ab'' @ [TAB] @ ''abc'' @ ESC # ''[31mdefghijkl'' @ [NL])))
       of Inr (out, w) \<Rightarrow> (lines w, Split out NL) | Inl e \<Rightarrow> ([], []))
     = ([''ab'' @ [TAB] @ ''abc'' @ ESC # ''[31mdefghijkl''],
        [''+---+--------+'',
         ''|ab |abc'' @ ESC # ''[31mdefghijkl |'',
         ''+---+--------+'', []])"
  by (simp add: run_defs)

text \<open>With a terminal width of 0 or less, \<open>updateHLine\<close> never appends a segment.\<close>

lemma updateHLine_unknown_width:
  assumes "termCols w \<le> 0" and "HLine (dividers w) \<noteq> []"
  shows "updateHLine w h n l lr lf
           = Inr ((if lf then leftEdge (dividers w) l lr else []) @ h)"
proof -
  have "0 \<le> quot (int (length h)) (int (length (HLine (dividers w))))"
    using assms(2) by (simp add: quot_nonneg pos_imp_zdiv_nonneg_iff)
  with assms show ?thesis
    by (simp add: updateHLine_def leftEdge_def Let_def)
qed

text \<open>
  C3. The claim: with an unknown terminal width the horizontal border lines are still
  drawn in full. When the terminal size cannot be read the width is 0,
  \<open>availableTermSpace\<close> is never positive and \<open>updateHLine\<close> appends nothing: every
  border line is its left-edge glyph alone, next to rows that were not truncated.
\<close>

theorem Flush_unknown_width_draws_no_borders:
  "(case Flush asciiTables ansiPalette
           (fst (Write (NewWriter None acceptAll AsciiTable)
                   (''Name'' @ [TAB] @ ''Age'' @ [NL] @ ''Alice'' @ [TAB] @ ''30'' @ [NL])))
    of (r, out, w) \<Rightarrow> (r, out))
   = (Returned None,
      Some (''+'' @ [NL] @ ''|Name  |Age |'' @ [NL] @ ''+'' @ [NL]
            @ ''|Alice |30  |'' @ [NL] @ ''+'' @ [NL]))"
  by (simp add: run_defs)

text \<open>
  C5. The claim: when truncation triggers, only the last field of the line is modified.
  \<open>strings.Replace(w.lines[l], fields[c], newFieldStr, -1)\<close> rewrites every occurrence
  of the last field's text in the line. On a terminal of 20 columns the row
  \<open>0123456789\<close>, \<open>0123456789\<close> has \<open>maxFieldLen = 7\<close>: the stored line has both fields
  cut to \<open>01\<close> and the coloured marker, and the rendered row shows the first field cut
  as well, under a border drawn for its full width of 10.
\<close>

theorem truncation_rewrites_earlier_field:
  "(case render asciiTables ansiPalette
           (fst (Write (writerOn 20 AsciiTable)
                   (''0123456789'' @ [TAB] @ ''0123456789'' @ [NL])))
    of Inr (out, w) \<Rightarrow> (lines w, Split out NL) | Inl e \<Rightarrow> ([], []))
   = ([''01'' @ ESC # ''[38;5;208m[...]'' @ ESC # ''[0m'' @ [TAB]
         @ ''01'' @ ESC # ''[38;5;208m[...]'' @ ESC # ''[0m''],
      [''+-----------+-------+'',
       ''|01'' @ ESC # ''[38;5;208m[...]'' @ ESC # ''[0m |01''
         @ ESC # ''[38;5;208m[...]'' @ ESC # ''[0m |'',
       ''+-----------+-------+'', []])"
  by (simp add: run_defs)

end
